theory Spec2Isabelle
  imports Main "HOL-Library.Word" "HOL-Library.Log_Nat"
begin

unbundle bit_operations_syntax

section \<open>Platform\<close>

text \<open>
  The embedding of \<^verbatim>\<open>dr_wav.h\<close> fixes one platform: a little-endian host with 8-bit
  \<^verbatim>\<open>unsigned char\<close>, 16-bit \<^verbatim>\<open>unsigned short\<close>, 32-bit \<^verbatim>\<open>int\<close> and
  \<^verbatim>\<open>unsigned int\<close>, and 64-bit \<^verbatim>\<open>size_t\<close> and \<^verbatim>\<open>uint64_t\<close>. Unsigned
  arithmetic wraps around, which is what \<open>+\<close>, \<open>-\<close> and \<open>*\<close> on words do. A signed
  \<^verbatim>\<open>int\<close> is a 32-bit word read with \<open>sint\<close>; conversions to a wider unsigned type are
  \<open>ucast\<close> from an unsigned and \<open>scast\<close> (sign extension) from a signed operand.

  Behaviour that is not a return value is a \<open>fault\<close>: an integer division by zero, a
  failed \<^verbatim>\<open>assert\<close> (the header includes \<^verbatim>\<open>assert.h\<close> and never defines
  \<^verbatim>\<open>NDEBUG\<close>), a call through a null function pointer, a shift of a 32-bit operand
  by 32 or more, and a loop that runs past the end of its buffers.
\<close>

type_synonym byte = "8 word"
type_synonym size_t = "64 word"
type_synonym c_int = "32 word"

datatype fault = DivisionByZero | AssertionFailed | NullCall | ShiftOutOfRange | BufferOverrun

section \<open>The byte source\<close>

text \<open>
  \<^verbatim>\<open>drwav_read_proc\<close> (line 73) receives the user data, a buffer and a byte count and
  returns the number of bytes it read; \<^verbatim>\<open>drwav_seek_proc\<close> (line 77) receives the user
  data and a signed offset relative to the current position, and returns non-zero on
  success. The user data is a mutable object behind a pointer, so both callbacks return its
  new state. A read callback yields the bytes it stored into the buffer, and its return
  value is their number, as the comment at line 72 says.
\<close>

type_synonym 'u drwav_read_proc = "'u \<Rightarrow> size_t \<Rightarrow> byte list \<times> 'u"
type_synonym 'u drwav_seek_proc = "'u \<Rightarrow> c_int \<Rightarrow> bool \<times> 'u"

definition bytes_returned :: "byte list \<Rightarrow> size_t" where
  "bytes_returned buf = of_nat (length buf)"

section \<open>Reading little-endian fields (lines 265--294)\<close>

definition drwav__is_little_endian :: bool where
  "drwav__is_little_endian = True"

text \<open>
  The operands are promoted to \<^verbatim>\<open>int\<close> before they are shifted, and the result is
  converted to the return type.
\<close>

definition drwav__read_u16 :: "byte list \<Rightarrow> 16 word" where
  "drwav__read_u16 data =
     (if drwav__is_little_endian
      then ucast (push_bit 0 (ucast (data ! 0) :: c_int) OR push_bit 8 (ucast (data ! 1)))
      else ucast (push_bit 0 (ucast (data ! 1) :: c_int) OR push_bit 8 (ucast (data ! 0))))"

definition drwav__read_u32 :: "byte list \<Rightarrow> 32 word" where
  "drwav__read_u32 data =
     (if drwav__is_little_endian
      then push_bit 0 (ucast (data ! 0)) OR push_bit 8 (ucast (data ! 1))
           OR push_bit 16 (ucast (data ! 2)) OR push_bit 24 (ucast (data ! 3))
      else push_bit 0 (ucast (data ! 3)) OR push_bit 8 (ucast (data ! 2))
           OR push_bit 16 (ucast (data ! 1)) OR push_bit 24 (ucast (data ! 0)))"

definition drwav__read_guid :: "byte list \<Rightarrow> byte list" where
  "drwav__read_guid data = map (\<lambda>i. data ! i) [0..<16]"

section \<open>The format chunk (lines 79--114, 296--356)\<close>

record drwav_fmt =
  formatTag :: "16 word"
  channels :: "16 word"
  sampleRate :: "32 word"
  avgBytesPerSec :: "32 word"
  blockAlign :: "16 word"
  bitsPerSample :: "16 word"
  extendedSize :: "16 word"
  validBitsPerSample :: "16 word"
  channelMask :: "32 word"
  subFormat :: "byte list"

text \<open>
  \<^verbatim>\<open>drwav__read_fmt\<close> fills \<^verbatim>\<open>*fmtOut\<close> and returns 0 or 1. The result is the return
  value, the contents of \<^verbatim>\<open>*fmtOut\<close> and the state of the user data. For a declared size
  of 18 the four extension fields are not written: they keep what \<^verbatim>\<open>*fmtOut\<close> held
  before the call. The assertion at line 327 follows from the test at line 312. The
  characters are \<^verbatim>\<open>'f'\<close> = 0x66, \<^verbatim>\<open>'m'\<close> = 0x6D, \<^verbatim>\<open>'t'\<close> = 0x74 and
  \<^verbatim>\<open>' '\<close> = 0x20.
\<close>

definition drwav__read_fmt ::
  "'u drwav_read_proc \<Rightarrow> 'u drwav_seek_proc \<Rightarrow> 'u \<Rightarrow> drwav_fmt \<Rightarrow> bool \<times> drwav_fmt \<times> 'u" where
  "drwav__read_fmt onRead onSeek pUserData fmtOut =
     (case onRead pUserData 24 of (fmt, u1) \<Rightarrow>
        if bytes_returned fmt \<noteq> 24 then (False, fmtOut, u1)
        else if fmt ! 0 \<noteq> 0x66 \<or> fmt ! 1 \<noteq> 0x6D \<or> fmt ! 2 \<noteq> 0x74 \<or> fmt ! 3 \<noteq> 0x20
          then (False, fmtOut, u1)
        else
          let chunkSize = drwav__read_u32 (drop 4 fmt) in
          if chunkSize < 16 then (False, fmtOut, u1)
          else if chunkSize \<noteq> 16 \<and> chunkSize \<noteq> 18 \<and> chunkSize \<noteq> 40 then (False, fmtOut, u1)
          else
            let f1 = fmtOut\<lparr>formatTag := drwav__read_u16 (drop 8 fmt),
                            channels := drwav__read_u16 (drop 10 fmt),
                            sampleRate := drwav__read_u32 (drop 12 fmt),
                            avgBytesPerSec := drwav__read_u32 (drop 16 fmt),
                            blockAlign := drwav__read_u16 (drop 20 fmt),
                            bitsPerSample := drwav__read_u16 (drop 22 fmt)\<rparr>
            in
            if chunkSize > 16 then
              (if chunkSize = 18 then
                 (case onSeek u1 2 of (ok, u2) \<Rightarrow> (ok, f1, u2))
               else
                 (case onRead u1 2 of (fmt_cbSize, u2) \<Rightarrow>
                    if bytes_returned fmt_cbSize \<noteq> 2 then (False, f1, u2)
                    else
                      let f2 = f1\<lparr>extendedSize := drwav__read_u16 fmt_cbSize\<rparr> in
                      if extendedSize f2 \<noteq> 22 then (False, f2, u2)
                      else
                        (case onRead u2 22 of (fmtext, u3) \<Rightarrow>
                           if bytes_returned fmtext \<noteq> 22 then (False, f2, u3)
                           else
                             (True,
                              f2\<lparr>validBitsPerSample := drwav__read_u16 fmtext,
                                 channelMask := drwav__read_u32 (drop 2 fmtext),
                                 subFormat := drwav__read_guid (drop 6 fmtext)\<rparr>,
                              u3))))
            else
              (True,
               f1\<lparr>extendedSize := 0, validBitsPerSample := 0, channelMask := 0,
                  subFormat := replicate 16 0\<rparr>,
               u1))"

section \<open>Opening (lines 456--557)\<close>

text \<open>
  The inner loop of lines 519--534 seeks past a chunk that is not the data chunk, in steps
  of at most \<^verbatim>\<open>0x7FFFFFFF\<close> bytes. It stops at the first seek that fails.
\<close>

function drwav_open_skip :: "'u drwav_seek_proc \<Rightarrow> 'u \<Rightarrow> 64 word \<Rightarrow> bool \<times> 'u" where
  "drwav_open_skip onSeek pUserData bytesRemainingToSeek =
     (if bytesRemainingToSeek > 0 then
        (if bytesRemainingToSeek > 0x7FFFFFFF then
           (case onSeek pUserData 0x7FFFFFFF of (ok, u') \<Rightarrow>
              if \<not> ok then (False, u')
              else drwav_open_skip onSeek u' (bytesRemainingToSeek - 0x7FFFFFFF))
         else
           (case onSeek pUserData (ucast bytesRemainingToSeek) of (ok, u') \<Rightarrow>
              if \<not> ok then (False, u')
              else drwav_open_skip onSeek u' 0))
      else (True, pUserData))"
  by pat_completeness auto
termination
  by (relation "measure (\<lambda>(onSeek, pUserData, n). unat n)")
     (auto simp: word_less_nat_alt unat_sub_if')

declare drwav_open_skip.simps [simp del]

text \<open>
  The outer loop of lines 500--535 reads chunk headers until it meets the data chunk. It
  yields the size of the data chunk and the state of the source, or nothing when a read or
  a seek fails. A source that serves chunk headers for ever keeps the loop running: the
  function is partial, and \<open>None\<close> is the run that does not return. The characters of
  \<^verbatim>\<open>"data"\<close> are 0x64, 0x61, 0x74, 0x61.
\<close>

partial_function (option) drwav_open_find_data ::
  "'u drwav_read_proc \<Rightarrow> 'u drwav_seek_proc \<Rightarrow> 'u \<Rightarrow> (64 word \<times> 'u) option option" where
  "drwav_open_find_data onRead onSeek pUserData =
     (case onRead pUserData 8 of (chunk, u1) \<Rightarrow>
        if bytes_returned chunk \<noteq> 8 then Some None
        else if chunk ! 0 = 0x64 \<and> chunk ! 1 = 0x61 \<and> chunk ! 2 = 0x74 \<and> chunk ! 3 = 0x61
          then Some (Some (ucast (drwav__read_u32 (drop 4 chunk)), u1))
        else
          (case drwav_open_skip onSeek u1
                  (if (ucast (drwav__read_u32 (drop 4 chunk)) :: 64 word) mod 2 \<noteq> 0
                   then ucast (drwav__read_u32 (drop 4 chunk)) + 1
                   else ucast (drwav__read_u32 (drop 4 chunk))) of
             (ok, u2) \<Rightarrow>
               if \<not> ok then Some None else drwav_open_find_data onRead onSeek u2))"

subsection \<open>The decoder (lines 116--155)\<close>

record 'u drwav =
  onRead :: "'u drwav_read_proc option"
  onSeek :: "'u drwav_seek_proc option"
  pUserData :: 'u
  fmt :: drwav_fmt
  sampleRate :: "32 word"
  channels :: "16 word"
  bitsPerSample :: "16 word"
  bytesPerSample :: "16 word"
  translatedFormatTag :: "16 word"
  totalSampleCount :: "64 word"
  bytesRemaining :: "64 word"

subsection \<open>\<^verbatim>\<open>drwav_open\<close>\<close>

text \<open>
  \<^verbatim>\<open>drwav_open\<close> returns a decoder or \<^verbatim>\<open>NULL\<close>. Its parameters here are, besides
  the callbacks and the user data, whether \<^verbatim>\<open>malloc\<close> succeeds (line 539) and the
  contents of the uninitialised local \<^verbatim>\<open>fmt\<close> (line 485). A primed name is the source's name
  where that name is also a field of the decoder. The two divisions of lines
  551 and 553 have no guard: a divisor of zero is a fault. The characters of
  \<^verbatim>\<open>"RIFF"\<close> are 0x52, 0x49, 0x46, 0x46 and those of \<^verbatim>\<open>"WAVE"\<close> are 0x57, 0x41,
  0x56, 0x45; \<^verbatim>\<open>DR_WAVE_FORMAT_EXTENSIBLE\<close> is 0xFFFE.
\<close>

definition DR_WAVE_FORMAT_EXTENSIBLE :: "16 word" where
  "DR_WAVE_FORMAT_EXTENSIBLE = 0xFFFE"

definition drwav_open ::
  "bool \<Rightarrow> drwav_fmt \<Rightarrow> 'u drwav_read_proc option \<Rightarrow> 'u drwav_seek_proc option \<Rightarrow> 'u
     \<Rightarrow> (fault + 'u drwav option) option" where
  "drwav_open malloc_ok fmt_local onRead' onSeek' pUserData' =
     (case onRead' of None \<Rightarrow> Some (Inr None) | Some rd \<Rightarrow>
     (case onSeek' of None \<Rightarrow> Some (Inr None) | Some sk \<Rightarrow>
     (case rd pUserData' 12 of (riff, u1) \<Rightarrow>
        if bytes_returned riff \<noteq> 12 then Some (Inr None)
        else if riff ! 0 \<noteq> 0x52 \<or> riff ! 1 \<noteq> 0x49 \<or> riff ! 2 \<noteq> 0x46 \<or> riff ! 3 \<noteq> 0x46
          then Some (Inr None)
        else if drwav__read_u32 (drop 4 riff) < 36 then Some (Inr None)
        else if riff ! 8 \<noteq> 0x57 \<or> riff ! 9 \<noteq> 0x41 \<or> riff ! 10 \<noteq> 0x56 \<or> riff ! 11 \<noteq> 0x45
          then Some (Inr None)
        else
          (case drwav__read_fmt rd sk u1 fmt_local of (ok, fmt', u2) \<Rightarrow>
             if \<not> ok then Some (Inr None)
             else
               (case drwav_open_find_data rd sk u2 of
                  None \<Rightarrow> None
                | Some None \<Rightarrow> Some (Inr None)
                | Some (Some (dataSize, u3)) \<Rightarrow>
                    if \<not> malloc_ok then Some (Inr None)
                    else if drwav_fmt.channels fmt' = 0 then Some (Inl DivisionByZero)
                    else if (ucast ((ucast (blockAlign fmt') :: c_int)
                                    div ucast (drwav_fmt.channels fmt')) :: 16 word) = 0
                      then Some (Inl DivisionByZero)
                    else
                      Some (Inr (Some
                        \<lparr>onRead = Some rd, onSeek = Some sk, pUserData = u3, fmt = fmt',
                         sampleRate = drwav_fmt.sampleRate fmt',
                         channels = drwav_fmt.channels fmt',
                         bitsPerSample = drwav_fmt.bitsPerSample fmt',
                         bytesPerSample =
                           ucast ((ucast (blockAlign fmt') :: c_int)
                                  div ucast (drwav_fmt.channels fmt')),
                         translatedFormatTag =
                           (if formatTag fmt' = DR_WAVE_FORMAT_EXTENSIBLE
                            then drwav__read_u16 (subFormat fmt') else formatTag fmt'),
                         totalSampleCount =
                           dataSize div ucast (ucast ((ucast (blockAlign fmt') :: c_int)
                                                      div ucast (drwav_fmt.channels fmt')) :: 16 word),
                         bytesRemaining = dataSize\<rparr>)))))))"

section \<open>Raw and typed reads (lines 582--612)\<close>

text \<open>
  Both functions return a count, store bytes into the caller's buffer and update the
  decoder behind \<^verbatim>\<open>pWav\<close>. A null \<^verbatim>\<open>pWav\<close> is \<open>None\<close>; the buffer pointer is
  represented by whether it is non-null. \<^verbatim>\<open>drwav_read\<close> divides by
  \<^verbatim>\<open>bytesPerSample\<close> without a guard.
\<close>

definition drwav_read_raw ::
  "'u drwav option \<Rightarrow> bool \<Rightarrow> size_t \<Rightarrow> fault + (size_t \<times> byte list \<times> 'u drwav option)" where
  "drwav_read_raw pWav pBufferOut bytesToRead =
     (case pWav of None \<Rightarrow> Inr (0, [], None) | Some w \<Rightarrow>
        if bytesToRead = 0 \<or> \<not> pBufferOut then Inr (0, [], pWav)
        else
          let bytesToRead' =
                (if bytesToRead > bytesRemaining w then bytesRemaining w else bytesToRead)
          in
          (case onRead w of None \<Rightarrow> Inl NullCall | Some rd \<Rightarrow>
             (case rd (pUserData w) bytesToRead' of (buf, u') \<Rightarrow>
                Inr (bytes_returned buf, buf,
                     Some (w\<lparr>pUserData := u',
                              bytesRemaining := bytesRemaining w - bytes_returned buf\<rparr>)))))"

definition drwav_read ::
  "'u drwav option \<Rightarrow> size_t \<Rightarrow> bool \<Rightarrow> size_t
     \<Rightarrow> fault + (size_t \<times> byte list \<times> 'u drwav option)" where
  "drwav_read pWav samplesToRead pBufferOut bufferOutSize =
     (case pWav of None \<Rightarrow> Inr (0, [], None) | Some w \<Rightarrow>
        if samplesToRead = 0 \<or> \<not> pBufferOut then Inr (0, [], pWav)
        else if bytesPerSample w = 0 then Inl DivisionByZero
        else
          let maxSamples = bufferOutSize div ucast (bytesPerSample w);
              samplesToRead' = (if samplesToRead > maxSamples then maxSamples else samplesToRead)
          in
          (case drwav_read_raw pWav pBufferOut (samplesToRead' * ucast (bytesPerSample w)) of
             Inl f \<Rightarrow> Inl f
           | Inr (bytesRead, buf, pWav') \<Rightarrow>
               Inr (bytesRead div ucast (bytesPerSample w), buf, pWav')))"

section \<open>Seeking (lines 614--661)\<close>

text \<open>
  The loop of lines 651--658. The result of the callback is not looked at.
  \<^verbatim>\<open>offset32 * direction\<close> is an \<^verbatim>\<open>int\<close>, converted to \<^verbatim>\<open>uint64_t\<close> by sign
  extension where it is subtracted from \<^verbatim>\<open>bytesRemaining\<close>.
\<close>

definition seek_offset32 :: "64 word \<Rightarrow> c_int" where
  "seek_offset32 offset = (if offset > 0x7FFFFFFF then 0x7FFFFFFF else ucast offset)"

function drwav_seek_loop ::
  "'u drwav_seek_proc \<Rightarrow> 'u drwav \<Rightarrow> 64 word \<Rightarrow> c_int \<Rightarrow> 'u drwav" where
  "drwav_seek_loop sk w offset direction =
     (if offset > 0 then
        drwav_seek_loop sk
          (w\<lparr>pUserData := snd (sk (pUserData w) (seek_offset32 offset * direction)),
             bytesRemaining := bytesRemaining w - scast (seek_offset32 offset * direction)\<rparr>)
          (offset - scast (seek_offset32 offset)) direction
      else w)"
  by pat_completeness auto

termination
proof (relation "measure (\<lambda>(sk, w, offset, direction). unat offset)")
  show "wf (measure (\<lambda>(sk :: 'u drwav_seek_proc, w :: 'u drwav, offset :: 64 word,
      direction :: c_int). unat offset))"
    by simp
next
  fix sk :: "'u drwav_seek_proc" and w :: "'u drwav" and offset :: "64 word"
    and direction :: c_int
  assume pos: "0 < offset"
  have "unat (offset - scast (seek_offset32 offset)) < unat offset"
  proof (cases "offset > 0x7FFFFFFF")
    case True
    then show ?thesis
      by (simp add: seek_offset32_def word_less_nat_alt unat_sub_if')
  next
    case False
    then have u: "uint offset < 2 ^ 31"
      by (simp add: word_le_def not_less)
    have eq: "uint (ucast offset :: c_int) = uint offset"
      using u by (simp add: unsigned_ucast_eq take_bit_int_eq_self)
    have "0 \<le> uint offset" by simp
    then have "- 2147483648 \<le> uint offset" by linarith
    with u eq have "sint (ucast offset :: c_int) = uint offset"
      by (simp add: sint_uint signed_take_bit_int_eq_self_iff)
    then have "(scast (ucast offset :: c_int) :: 64 word) = word_of_int (uint offset)"
      by (simp add: scast_eq)
    then have "scast (seek_offset32 offset) = offset"
      using False by (simp add: seek_offset32_def)
    with pos show ?thesis
      by (simp add: word_less_nat_alt)
  qed
  then show "((sk, w\<lparr>pUserData := snd (sk (pUserData w) (seek_offset32 offset * direction)),
                     bytesRemaining :=
                       bytesRemaining w - scast (seek_offset32 offset * direction)\<rparr>,
               offset - scast (seek_offset32 offset), direction),
              sk, w, offset, direction)
      \<in> measure (\<lambda>(sk, w, offset, direction). unat offset)"
    by simp
qed

declare drwav_seek_loop.simps [simp del]

text \<open>
  \<^verbatim>\<open>drwav_seek\<close> returns 0 or 1 and updates the decoder. The assertion of line 634
  is evaluated after the clamp of lines 628--630 and before any seek is issued.
\<close>

definition drwav_seek :: "'u drwav option \<Rightarrow> 64 word \<Rightarrow> fault + (bool \<times> 'u drwav option)" where
  "drwav_seek pWav sample =
     (case pWav of None \<Rightarrow> Inr (False, None) | Some w \<Rightarrow>
     (case onSeek w of None \<Rightarrow> Inr (False, pWav) | Some sk \<Rightarrow>
        if totalSampleCount w = 0 then Inr (True, pWav)
        else
          let sample' = (if sample \<ge> totalSampleCount w then totalSampleCount w - 1 else sample);
              totalSizeInBytes = totalSampleCount w * ucast (bytesPerSample w)
          in
          if \<not> (totalSizeInBytes \<ge> bytesRemaining w) then Inl AssertionFailed
          else
            let currentBytePos = totalSizeInBytes - bytesRemaining w;
                targetBytePos = sample' * ucast (bytesPerSample w)
            in
            if currentBytePos < targetBytePos
            then Inr (True, Some (drwav_seek_loop sk w (targetBytePos - currentBytePos) 1))
            else Inr (True, Some (drwav_seek_loop sk w (currentBytePos - targetBytePos) (- 1)))))"

section \<open>Binary floating point\<close>

text \<open>
  A \<^verbatim>\<open>float\<close> is IEEE binary32 and a \<^verbatim>\<open>double\<close> binary64; every operation rounds
  its exact result to the nearest value of its format, ties to the even significand. A
  finite floating-point value is the rational number it denotes. \<open>fp_round p emin r\<close> is
  the value of precision \<open>p\<close> nearest to \<open>r\<close>, where the least exponent of the unit in
  the last place is \<open>emin\<close>. The values met here are at most 2 in magnitude, far from
  overflow. \<open>ilog2 a\<close> is the integer part of the binary logarithm of a positive \<open>a\<close>.
\<close>

definition ilog2 :: "rat \<Rightarrow> int" where
  "ilog2 a = (if 1 \<le> a then bitlen \<lfloor>a\<rfloor> - 1 else - bitlen (\<lceil>1 / a\<rceil> - 1))"

definition fp_round :: "nat \<Rightarrow> int \<Rightarrow> rat \<Rightarrow> rat" where
  "fp_round p emin r =
     (if r = 0 then 0
      else
        let e = max (ilog2 \<bar>r\<bar> - (int p - 1)) emin;
            q = \<bar>r\<bar> / 2 powi e;
            m = \<lfloor>q\<rfloor>;
            m' = (if q - of_int m < 1 / 2 then m
                  else if 1 / 2 < q - of_int m then m + 1
                  else if even m then m else m + 1)
        in sgn r * of_int m' * 2 powi e)"

definition f32_round :: "rat \<Rightarrow> rat" where
  "f32_round = fp_round 24 (- 149)"

definition f64_round :: "rat \<Rightarrow> rat" where
  "f64_round = fp_round 53 (- 1074)"

section \<open>Conversion to float (lines 665--708 and 828--947)\<close>

text \<open>
  An array argument is the function from an index to the element at that index, or
  \<open>None\<close> for a null pointer; the output pointer is represented by whether it is non-null.
  The result is the list of the floats stored through the output pointer, in order. A primed
  name is the source's name where that name is also a field of the decoder. The
  loops of \<^verbatim>\<open>drwav_ulaw_to_f32\<close> and of the generic path of
  \<^verbatim>\<open>drwav__pcm_to_f32\<close> count in an \<^verbatim>\<open>unsigned int\<close>: a sample count above
  \<^verbatim>\<open>0xFFFFFFFF\<close> is never reached and the loop runs past its buffers.
\<close>

definition drwav_u8PCM_to_f32 :: "size_t \<Rightarrow> (nat \<Rightarrow> byte) option \<Rightarrow> bool \<Rightarrow> rat list" where
  "drwav_u8PCM_to_f32 totalSampleCount' u8PCM f32Out =
     (case u8PCM of None \<Rightarrow> [] | Some p \<Rightarrow>
        if \<not> f32Out then []
        else map (\<lambda>i. f32_round (f32_round (f32_round (f32_round (of_int (uint (p i))) / 255) * 2) - 1))
               [0..<unat totalSampleCount'])"

definition drwav_s16PCM_to_f32 :: "size_t \<Rightarrow> (nat \<Rightarrow> 16 word) option \<Rightarrow> bool \<Rightarrow> rat list" where
  "drwav_s16PCM_to_f32 totalSampleCount' s16PCM f32Out =
     (case s16PCM of None \<Rightarrow> [] | Some p \<Rightarrow>
        if \<not> f32Out then []
        else map (\<lambda>i. f32_round (f32_round (of_int (sint (p i))) / 32768))
               [0..<unat totalSampleCount'])"

definition drwav_s24PCM_to_f32 :: "size_t \<Rightarrow> (nat \<Rightarrow> byte) option \<Rightarrow> bool \<Rightarrow> rat list" where
  "drwav_s24PCM_to_f32 totalSampleCount' s24PCM f32Out =
     (case s24PCM of None \<Rightarrow> [] | Some p \<Rightarrow>
        if \<not> f32Out then []
        else map (\<lambda>i.
               let s0 = (ucast (p (i * 3 + 0)) :: 32 word);
                   s1 = (ucast (p (i * 3 + 1)) :: 32 word);
                   s2 = (ucast (p (i * 3 + 2)) :: 32 word);
                   sample32 = push_bit 8 s0 OR push_bit 16 s1 OR push_bit 24 s2
               in f32_round (f64_round (f64_round (of_int (sint sample32)) / 2147483648)))
               [0..<unat totalSampleCount'])"

definition drwav_s32PCM_to_f32 :: "size_t \<Rightarrow> (nat \<Rightarrow> 32 word) option \<Rightarrow> bool \<Rightarrow> rat list" where
  "drwav_s32PCM_to_f32 totalSampleCount' s32PCM f32Out =
     (case s32PCM of None \<Rightarrow> [] | Some p \<Rightarrow>
        if \<not> f32Out then []
        else map (\<lambda>i. f32_round (f64_round (f64_round (of_int (sint (p i))) / 2147483648)))
               [0..<unat totalSampleCount'])"

text \<open>
  The body of the loop of \<^verbatim>\<open>drwav_alaw_to_f32\<close> (lines 901--924): the value of
  \<^verbatim>\<open>t\<close> at line 924, and the float stored.
\<close>

definition drwav_alaw_to_f32_t :: "byte \<Rightarrow> c_int" where
  "drwav_alaw_to_f32_t x =
     (let a = x XOR 0x55;
          t0 = (push_bit 4 (ucast (a AND 0x0F)) :: c_int);
          s = drop_bit 4 ((ucast a :: 32 word) AND 0x70);
          t1 = (if s = 0 then t0 + 8 else push_bit (unat s - 1) (t0 + 0x108))
      in if a AND 0x80 = 0 then - t1 else t1)"

definition drwav_alaw_to_f32_sample :: "byte \<Rightarrow> rat" where
  "drwav_alaw_to_f32_sample x =
     f32_round (f32_round (of_int (sint (drwav_alaw_to_f32_t x))) / 32768)"

definition drwav_alaw_to_f32 :: "size_t \<Rightarrow> (nat \<Rightarrow> byte) option \<Rightarrow> bool \<Rightarrow> rat list" where
  "drwav_alaw_to_f32 totalSampleCount' alaw f32Out =
     (case alaw of None \<Rightarrow> [] | Some p \<Rightarrow>
        if \<not> f32Out then []
        else map (\<lambda>i. drwav_alaw_to_f32_sample (p i)) [0..<unat totalSampleCount'])"

text \<open>
  The body of the loop of \<^verbatim>\<open>drwav_ulaw_to_f32\<close> (lines 936--945): the value of
  \<^verbatim>\<open>t\<close> at line 945, and the float stored.
\<close>

definition drwav_ulaw_to_f32_t :: "byte \<Rightarrow> c_int" where
  "drwav_ulaw_to_f32_t x =
     (let u = NOT x;
          t0 = (push_bit (unat (drop_bit 4 ((ucast u :: 32 word) AND 0x70)))
                  (push_bit 3 (ucast (u AND 0x0F)) + 0x84) :: c_int)
      in if u AND 0x80 \<noteq> 0 then 0x84 - t0 else t0 - 0x84)"

definition drwav_ulaw_to_f32_sample :: "byte \<Rightarrow> rat" where
  "drwav_ulaw_to_f32_sample x =
     f32_round (f32_round (of_int (sint (drwav_ulaw_to_f32_t x))) / 32768)"

definition drwav_ulaw_to_f32 ::
  "size_t \<Rightarrow> (nat \<Rightarrow> byte) option \<Rightarrow> bool \<Rightarrow> fault + rat list" where
  "drwav_ulaw_to_f32 totalSampleCount' ulaw f32Out =
     (case ulaw of None \<Rightarrow> Inr [] | Some p \<Rightarrow>
        if \<not> f32Out then Inr []
        else if totalSampleCount' > 0xFFFFFFFF then Inl BufferOverrun
        else Inr (map (\<lambda>i. drwav_ulaw_to_f32_sample (p i)) [0..<unat totalSampleCount']))"

text \<open>
  The inner loop of the generic path of \<^verbatim>\<open>drwav__pcm_to_f32\<close> (lines 698--701): it
  shifts the bytes at indices 0 to 3 of one sample into \<^verbatim>\<open>sample\<close>. A shift count of
  32 or more is a fault.
\<close>

function drwav__pcm_to_f32_accumulate ::
  "(nat \<Rightarrow> byte) \<Rightarrow> 16 word \<Rightarrow> 16 word \<Rightarrow> 32 word \<Rightarrow> 32 word \<Rightarrow> fault + 32 word" where
  "drwav__pcm_to_f32_accumulate pPCM bytesPerSample' j shift sample =
     (if j < bytesPerSample' \<and> j < 4 then
        (if shift \<ge> 32 then Inl ShiftOutOfRange
         else drwav__pcm_to_f32_accumulate pPCM bytesPerSample' (j + 1) (shift + 8)
                (sample OR push_bit (unat shift) (ucast (pPCM (unat j)))))
      else Inr sample)"
  by pat_completeness auto
termination
proof (relation "measure (\<lambda>(pPCM, bytesPerSample', j, shift, sample). 4 - unat j)")
  show "wf (measure (\<lambda>(pPCM :: nat \<Rightarrow> byte, bytesPerSample' :: 16 word, j :: 16 word,
      shift :: 32 word, sample :: 32 word). 4 - unat j))"
    by simp
next
  fix pPCM :: "nat \<Rightarrow> byte" and bytesPerSample' j :: "16 word" and shift sample :: "32 word"
  assume "j < bytesPerSample' \<and> j < 4"
  then have "unat j < 4" by (simp add: word_less_nat_alt)
  then have "unat (j + 1) = unat j + 1"
    by (simp add: unat_word_ariths)
  with \<open>unat j < 4\<close>
  show "((pPCM, bytesPerSample', j + 1, shift + 8,
          sample OR push_bit (unat shift) (ucast (pPCM (unat j)))),
         pPCM, bytesPerSample', j, shift, sample)
      \<in> measure (\<lambda>(pPCM, bytesPerSample', j, shift, sample). 4 - unat j)"
    by simp
qed

declare drwav__pcm_to_f32_accumulate.simps [simp del]

text \<open>One round of the outer loop (lines 696--704) on the sample that \<^verbatim>\<open>pPCM\<close> points to.\<close>

definition drwav__pcm_to_f32_sample :: "(nat \<Rightarrow> byte) \<Rightarrow> 16 word \<Rightarrow> fault + rat" where
  "drwav__pcm_to_f32_sample pPCM bytesPerSample' =
     (case drwav__pcm_to_f32_accumulate pPCM bytesPerSample' 0
             ((8 - ucast bytesPerSample') * 8) 0 of
        Inl f \<Rightarrow> Inl f
      | Inr sample \<Rightarrow>
          Inr (f32_round (f64_round (f64_round (of_int (sint sample)) / 2147483648))))"

fun collect :: "(fault + 'a) list \<Rightarrow> fault + 'a list" where
  "collect [] = Inr []"
| "collect (Inl f # rs) = Inl f"
| "collect (Inr x # rs) = (case collect rs of Inl f \<Rightarrow> Inl f | Inr xs \<Rightarrow> Inr (x # xs))"

text \<open>
  \<^verbatim>\<open>drwav__pcm_to_f32\<close> returns 0 or 1. The casts of \<^verbatim>\<open>pPCM\<close> to
  \<^verbatim>\<open>const short*\<close> and \<^verbatim>\<open>const int*\<close> read the bytes in the order of the host,
  least significant first. In the generic path a fault of the first sample comes before the
  loop can run past its buffers.
\<close>

definition bytes_as_s16 :: "(nat \<Rightarrow> byte) \<Rightarrow> nat \<Rightarrow> 16 word" where
  "bytes_as_s16 p i = ucast (p (2 * i)) OR push_bit 8 (ucast (p (2 * i + 1)))"

definition bytes_as_s32 :: "(nat \<Rightarrow> byte) \<Rightarrow> nat \<Rightarrow> 32 word" where
  "bytes_as_s32 p i =
     ucast (p (4 * i)) OR push_bit 8 (ucast (p (4 * i + 1)))
       OR push_bit 16 (ucast (p (4 * i + 2))) OR push_bit 24 (ucast (p (4 * i + 3)))"

definition drwav__pcm_to_f32 ::
  "size_t \<Rightarrow> (nat \<Rightarrow> byte) option \<Rightarrow> 16 word \<Rightarrow> bool \<Rightarrow> fault + (bool \<times> rat list)" where
  "drwav__pcm_to_f32 totalSampleCount' pPCM bytesPerSample' f32Out =
     (case pPCM of None \<Rightarrow> Inr (False, []) | Some p \<Rightarrow>
        if \<not> f32Out then Inr (False, [])
        else if bytesPerSample' = 1
          then Inr (True, drwav_u8PCM_to_f32 totalSampleCount' (Some p) f32Out)
        else if bytesPerSample' = 2
          then Inr (True, drwav_s16PCM_to_f32 totalSampleCount' (Some (bytes_as_s16 p)) f32Out)
        else if bytesPerSample' = 3
          then Inr (True, drwav_s24PCM_to_f32 totalSampleCount' (Some p) f32Out)
        else if bytesPerSample' = 4
          then Inr (True, drwav_s32PCM_to_f32 totalSampleCount' (Some (bytes_as_s32 p)) f32Out)
        else
          (case collect (map (\<lambda>i. drwav__pcm_to_f32_sample (\<lambda>k. p (i * unat bytesPerSample' + k))
                                       bytesPerSample')
                           [0..<unat totalSampleCount']) of
             Inl f \<Rightarrow> Inl f
           | Inr out \<Rightarrow>
               if totalSampleCount' > 0xFFFFFFFF then Inl BufferOverrun else Inr (True, out)))"

section \<open>The conversions as the specification words them\<close>

text \<open>
  Stated from section 4.4 of the specification, in integer arithmetic. For \<open>\<mu>\<close>-law: the
  complement of the byte, a 4-bit mantissa and a 3-bit segment, the magnitude
  \<open>((mantissa << 3) + 0x84) << segment\<close>, subtracted from \<open>0x84\<close> when the sign bit is
  set and reduced by \<open>0x84\<close> otherwise, divided by 32768.
\<close>

definition spec_ulaw_value :: "byte \<Rightarrow> int" where
  "spec_ulaw_value x =
     (let u = 255 - uint x;
          mantissa = u mod 16;
          segment = (u div 16) mod 8;
          magnitude = (mantissa * 8 + 0x84) * 2 ^ nat segment
      in if 128 \<le> u then 0x84 - magnitude else magnitude - 0x84)"

definition spec_ulaw_to_f32 :: "byte \<Rightarrow> rat" where
  "spec_ulaw_to_f32 x = f32_round (of_int (spec_ulaw_value x) / 32768)"

text \<open>
  For A-law: the byte XOR \<open>0x55\<close>, a 4-bit mantissa moved into bits 4 to 7 and a 3-bit
  segment; segment 0 adds 8, a greater segment adds \<open>0x108\<close> and shifts left by the segment
  less one; the sign is taken from bit 7, divided by 32768. The specification does not say
  which value of bit 7 is negative: as in ITU-T G.711, a clear bit is.
\<close>

definition spec_alaw_value :: "byte \<Rightarrow> int" where
  "spec_alaw_value x =
     (let a = uint (x XOR 0x55);
          mantissa = a mod 16;
          segment = (a div 16) mod 8;
          magnitude = (if segment = 0 then mantissa * 16 + 8
                       else (mantissa * 16 + 0x108) * 2 ^ nat (segment - 1))
      in if 128 \<le> a then magnitude else - magnitude)"

definition spec_alaw_to_f32 :: "byte \<Rightarrow> rat" where
  "spec_alaw_to_f32 x = f32_round (of_int (spec_alaw_value x) / 32768)"

text \<open>
  The generic fallback: the up to 4 leading bytes of a sample, the most significant first,
  the low bytes zero when the width is below 4 and the bytes after the fourth ignored; read
  as a signed 32-bit integer and divided by 2147483648.
\<close>

definition spec_pcm_generic_value :: "nat \<Rightarrow> (nat \<Rightarrow> byte) \<Rightarrow> int" where
  "spec_pcm_generic_value width p =
     (let v = (\<Sum>j\<leftarrow>[0..<min width 4]. uint (p j) * 256 ^ (3 - j))
      in if 2147483648 \<le> v then v - 4294967296 else v)"

definition spec_pcm_generic_to_f32 :: "nat \<Rightarrow> (nat \<Rightarrow> byte) \<Rightarrow> rat" where
  "spec_pcm_generic_to_f32 width p = f32_round (of_int (spec_pcm_generic_value width p) / 2147483648)"

text \<open>
  The signed 32-bit integer made of four bytes with the least significant first, which is
  what the generic path accumulates for a width of 8.
\<close>

definition le_s32_value :: "(nat \<Rightarrow> byte) \<Rightarrow> int" where
  "le_s32_value p =
     (let v = uint (p 0) + 256 * uint (p 1) + 65536 * uint (p 2) + 16777216 * uint (p 3)
      in if 2147483648 \<le> v then v - 4294967296 else v)"

section \<open>The in-memory source (lines 389--440)\<close>

text \<open>
  \<^verbatim>\<open>drwav_memory\<close> holds a pointer to the data with its size, and the read position.
  The pointer and its size are one list here. The assertion at line 406
  (\<^verbatim>\<open>dataSize >= currentReadPos\<close>) is kept by both callbacks.
\<close>

record drwav_memory =
  data :: "byte list"
  currentReadPos :: size_t

definition dataSize :: "drwav_memory \<Rightarrow> size_t" where
  "dataSize memory = of_nat (length (data memory))"

definition drwav__on_read_memory :: "drwav_memory drwav_read_proc" where
  "drwav__on_read_memory memory bytesToRead =
     (let bytesRemaining = dataSize memory - currentReadPos memory;
          bytesToRead' = (if bytesToRead > bytesRemaining then bytesRemaining else bytesToRead)
      in if bytesToRead' > 0
         then (take (unat bytesToRead') (drop (unat (currentReadPos memory)) (data memory)),
               memory\<lparr>currentReadPos := currentReadPos memory + bytesToRead'\<rparr>)
         else ([], memory))"

definition drwav__on_seek_memory :: "drwav_memory drwav_seek_proc" where
  "drwav__on_seek_memory memory offset =
     (let offset' =
            (if 0 <s offset
             then (if currentReadPos memory + scast offset > dataSize memory
                   then ucast (dataSize memory - currentReadPos memory) else offset)
             else (if currentReadPos memory < scast (- offset)
                   then - ucast (currentReadPos memory) else offset))
      in (True, memory\<lparr>currentReadPos := currentReadPos memory + scast offset'\<rparr>))"

section \<open>Example containers\<close>

text \<open>
  The scenario of the specification: 44100 Hz, mono, 16-bit PCM, four frames with the values
  0, 16384, -16384 and 32767. The container is 12 bytes of RIFF header, the 24 bytes of a
  format chunk of declared size 16, and a data chunk of 8 bytes.
\<close>

definition riff_header :: "byte \<Rightarrow> byte list" where
  "riff_header riff_size = [0x52, 0x49, 0x46, 0x46, riff_size, 0, 0, 0, 0x57, 0x41, 0x56, 0x45]"

definition fmt_chunk_pcm16 :: "byte \<Rightarrow> byte \<Rightarrow> byte list" where
  "fmt_chunk_pcm16 nchannels align =
     [0x66, 0x6D, 0x74, 0x20, 16, 0, 0, 0, 1, 0, nchannels, 0,
      0x44, 0xAC, 0, 0, 0x88, 0x58, 1, 0, align, 0, 16, 0]"

definition wav_example :: "byte list" where
  "wav_example = riff_header 44 @ fmt_chunk_pcm16 1 2 @
     [0x64, 0x61, 0x74, 0x61, 8, 0, 0, 0] @ [0, 0, 0, 0x40, 0, 0xC0, 0xFF, 0x7F]"

text \<open>
  The same format with a data chunk of 5 bytes, which is two samples and one byte more,
  followed by the pad byte.
\<close>

definition wav_odd :: "byte list" where
  "wav_odd = riff_header 42 @ fmt_chunk_pcm16 1 2 @
     [0x64, 0x61, 0x74, 0x61, 5, 0, 0, 0] @ [1, 2, 3, 4, 5, 0]"

text \<open>The example with a channel count of 0 in its format chunk.\<close>

definition wav_zero_channels :: "byte list" where
  "wav_zero_channels = riff_header 44 @ fmt_chunk_pcm16 0 2 @
     [0x64, 0x61, 0x74, 0x61, 8, 0, 0, 0] @ [0, 0, 0, 0x40, 0, 0xC0, 0xFF, 0x7F]"

text \<open>
  A format chunk of declared size 40 whose extension-size field is 0, followed by 22 bytes
  of extension and a data chunk.
\<close>

definition wav_bad_extension :: "byte list" where
  "wav_bad_extension = riff_header 68 @
     [0x66, 0x6D, 0x74, 0x20, 40, 0, 0, 0, 0xFE, 0xFF, 1, 0,
      0x44, 0xAC, 0, 0, 0x88, 0x58, 1, 0, 2, 0, 16, 0] @
     [0, 0] @ replicate 22 0 @
     [0x64, 0x61, 0x74, 0x61, 8, 0, 0, 0] @ [0, 0, 0, 0x40, 0, 0xC0, 0xFF, 0x7F]"

text \<open>
  A container with a \<^verbatim>\<open>LIST\<close> chunk of declared size 3 and its pad byte after the
  format chunk, and no data chunk.
\<close>

definition wav_no_data :: "byte list" where
  "wav_no_data = riff_header 40 @ fmt_chunk_pcm16 1 2 @
     [0x4C, 0x49, 0x53, 0x54, 3, 0, 0, 0] @ [1, 2, 3, 0]"

text \<open>
  The example with a \<^verbatim>\<open>LIST\<close> chunk of declared size 3 and its pad byte between the
  format chunk and the data chunk.
\<close>

definition wav_list_data :: "byte list" where
  "wav_list_data = riff_header 56 @ fmt_chunk_pcm16 1 2 @
     [0x4C, 0x49, 0x53, 0x54, 3, 0, 0, 0] @ [1, 2, 3, 0] @
     [0x64, 0x61, 0x74, 0x61, 8, 0, 0, 0] @ [0, 0, 0, 0x40, 0, 0xC0, 0xFF, 0x7F]"

definition fmt_zero :: drwav_fmt where
  "fmt_zero = \<lparr>formatTag = 0, channels = 0, sampleRate = 0, avgBytesPerSec = 0, blockAlign = 0,
     bitsPerSample = 0, extendedSize = 0, validBitsPerSample = 0, channelMask = 0,
     subFormat = replicate 16 0\<rparr>"

definition fmt_example :: drwav_fmt where
  "fmt_example = \<lparr>formatTag = 1, channels = 1, sampleRate = 44100, avgBytesPerSec = 88200,
     blockAlign = 2, bitsPerSample = 16, extendedSize = 0, validBitsPerSample = 0,
     channelMask = 0, subFormat = replicate 16 0\<rparr>"

text \<open>A decoder on an in-memory source at read position \<open>pos\<close>.\<close>

definition memory_decoder ::
  "byte list \<Rightarrow> size_t \<Rightarrow> 16 word \<Rightarrow> 64 word \<Rightarrow> 64 word \<Rightarrow> drwav_memory drwav" where
  "memory_decoder bytes pos bps nsamples remaining =
     \<lparr>onRead = Some drwav__on_read_memory, onSeek = Some drwav__on_seek_memory,
      pUserData = \<lparr>data = bytes, currentReadPos = pos\<rparr>, fmt = fmt_example,
      sampleRate = 44100, channels = 1, bitsPerSample = 16, bytesPerSample = bps,
      translatedFormatTag = 1, totalSampleCount = nsamples, bytesRemaining = remaining\<rparr>"

section \<open>Sequences of reads\<close>

text \<open>
  A caller's sequence of calls of \<^verbatim>\<open>drwav_read_raw\<close> and \<^verbatim>\<open>drwav_read\<close> on one
  decoder, each with its arguments. The run stops at the first fault.
\<close>

datatype read_call =
  Call_read_raw bool size_t
| Call_read size_t bool size_t

fun do_read_call :: "'u drwav option \<Rightarrow> read_call \<Rightarrow> fault + (size_t \<times> byte list \<times> 'u drwav option)" where
  "do_read_call pWav (Call_read_raw pBufferOut bytesToRead) = drwav_read_raw pWav pBufferOut bytesToRead"
| "do_read_call pWav (Call_read samplesToRead pBufferOut bufferOutSize) =
     drwav_read pWav samplesToRead pBufferOut bufferOutSize"

fun run_read_calls :: "'u drwav option \<Rightarrow> read_call list \<Rightarrow> fault + 'u drwav option" where
  "run_read_calls pWav [] = Inr pWav"
| "run_read_calls pWav (c # cs) =
     (case do_read_call pWav c of
        Inl f \<Rightarrow> Inl f
      | Inr (n, buf, pWav') \<Rightarrow> run_read_calls pWav' cs)"

text \<open>The contract of a read callback: it returns at most the count it was asked for.\<close>

definition read_within_request :: "'u drwav_read_proc \<Rightarrow> bool" where
  "read_within_request rd = (\<forall>u n. length (fst (rd u n)) \<le> unat n)"

section \<open>Little-endian values\<close>

text \<open>
  The value of the first two and of the first four bytes of a list, least significant byte
  first, as natural numbers.
\<close>

definition le_u16 :: "byte list \<Rightarrow> nat" where
  "le_u16 bs = unat (bs ! 0) + 256 * unat (bs ! 1)"

definition le_u32 :: "byte list \<Rightarrow> nat" where
  "le_u32 bs =
     unat (bs ! 0) + 256 * unat (bs ! 1) + 65536 * unat (bs ! 2) + 16777216 * unat (bs ! 3)"

section \<open>Observing the seeks\<close>

text \<open>
  A seek callback wrapped so that the user data also records every offset it is called
  with and the result it gives. The wrapped callback behaves as the callback it wraps.
\<close>

definition logged_seek :: "'u drwav_seek_proc \<Rightarrow> ('u \<times> (c_int \<times> bool) list) drwav_seek_proc" where
  "logged_seek sk = (\<lambda>(u, trace) offset.
     case sk u offset of (ok, u') \<Rightarrow> (ok, (u', trace @ [(offset, ok)])))"




definition seeks_total :: "(c_int \<times> bool) list \<Rightarrow> int" where
  "seeks_total steps = (\<Sum>(off, r)\<leftarrow>steps. sint off)"

text \<open>
  For the seeks of \<^verbatim>\<open>drwav_seek\<close>: every offset has the sign of the direction and a
  magnitude of at most \<^verbatim>\<open>INT_MAX\<close>.
\<close>

definition seeks_directed :: "c_int \<Rightarrow> (c_int \<times> bool) list \<Rightarrow> bool" where
  "seeks_directed direction steps =
     (\<forall>(off, r) \<in> set steps. 0 < sint off * sint direction \<and> \<bar>sint off\<bar> \<le> 2147483647)"

text \<open>A seek callback that reports failure and leaves the source where it is.\<close>

definition failing_seek :: "'u drwav_seek_proc" where
  "failing_seek u offset = (False, u)"

section \<open>Exhausting the source while scanning\<close>

text \<open>
  The bytes to skip for a chunk of a declared size: the size, and one pad byte more
  when the size is odd.
\<close>

definition chunk_skip_length :: "nat \<Rightarrow> nat" where
  "chunk_skip_length declared = (if odd declared then declared + 1 else declared)"

text \<open>
  The byte source is exhausted before a data chunk is found: the read of a chunk header does
  not return 8 bytes, or the header is not that of a data chunk and either a seek past the
  chunk fails or the source is exhausted after the chunk.
\<close>

definition is_data_id :: "byte list \<Rightarrow> bool" where
  "is_data_id chunk = (chunk ! 0 = 0x64 \<and> chunk ! 1 = 0x61 \<and> chunk ! 2 = 0x74 \<and> chunk ! 3 = 0x61)"

inductive exhausted_before_data :: "'u drwav_read_proc \<Rightarrow> 'u drwav_seek_proc \<Rightarrow> 'u \<Rightarrow> bool"
  for rd :: "'u drwav_read_proc" and sk :: "'u drwav_seek_proc" where
  header_read_fails:
    "rd u 8 = (chunk, u1) \<Longrightarrow> bytes_returned chunk \<noteq> 8 \<Longrightarrow> exhausted_before_data rd sk u"
| seek_fails:
    "rd u 8 = (chunk, u1) \<Longrightarrow> bytes_returned chunk = 8 \<Longrightarrow> \<not> is_data_id chunk \<Longrightarrow>
     drwav_open_skip sk u1 (of_nat (chunk_skip_length (le_u32 (drop 4 chunk)))) = (False, u2) \<Longrightarrow>
     exhausted_before_data rd sk u"
| after_chunk:
    "rd u 8 = (chunk, u1) \<Longrightarrow> bytes_returned chunk = 8 \<Longrightarrow> \<not> is_data_id chunk \<Longrightarrow>
     drwav_open_skip sk u1 (of_nat (chunk_skip_length (le_u32 (drop 4 chunk)))) = (True, u2) \<Longrightarrow>
     exhausted_before_data rd sk u2 \<Longrightarrow>
     exhausted_before_data rd sk u"

section \<open>The typed read as the specification words it\<close>

text \<open>
  Stated from the specification, not from the source: the typed read clamps the requested
  samples to the whole samples the destination can hold and to the remaining whole samples,
  and asks the raw read for that many samples' bytes.
\<close>

definition spec_clamped_samples :: "'u drwav \<Rightarrow> size_t \<Rightarrow> size_t \<Rightarrow> nat" where
  "spec_clamped_samples w samplesToRead bufferOutSize =
     min (unat samplesToRead)
       (min (unat bufferOutSize div unat (bytesPerSample w))
            (unat (bytesRemaining w) div unat (bytesPerSample w)))"

definition spec_read_request :: "'u drwav \<Rightarrow> size_t \<Rightarrow> size_t \<Rightarrow> nat" where
  "spec_read_request w samplesToRead bufferOutSize =
     spec_clamped_samples w samplesToRead bufferOutSize * unat (bytesPerSample w)"

section \<open>Auxiliary facts about words\<close>

lemma scast_ucast_small:
  fixes offset :: "64 word"
  assumes le: "offset \<le> 0x7FFFFFFF"
  shows "scast (ucast offset :: c_int) = offset"
proof -
  from le have u: "uint offset < 2 ^ 31"
    by (simp add: word_le_def)
  have eq: "uint (ucast offset :: c_int) = uint offset"
    using u by (simp add: unsigned_ucast_eq take_bit_int_eq_self)
  have "0 \<le> uint offset" by simp
  then have "- 2147483648 \<le> uint offset" by linarith
  with u eq have "sint (ucast offset :: c_int) = uint offset"
    by (simp add: sint_uint signed_take_bit_int_eq_self_iff)
  then have "(scast (ucast offset :: c_int) :: 64 word) = word_of_int (uint offset)"
    by (simp add: scast_eq)
  then show ?thesis by simp
qed

lemma scast_seek_offset32:
  "scast (seek_offset32 offset) = (if offset > 0x7FFFFFFF then 0x7FFFFFFF else offset)"
  by (simp add: seek_offset32_def scast_ucast_small)


lemma unat_ucast_16_64: "unat (ucast (b :: 16 word) :: 64 word) = unat b"
proof -
  have "unat b < 2 ^ 16" using unsigned_less [of b, where ?'a = nat] by simp
  then have "unat b < 2 ^ 64" by (rule less_trans) simp
  then show ?thesis by (simp add: unsigned_ucast_eq take_bit_nat_eq_self)
qed

lemma unat_div_ucast_16_64: "unat ((x :: 64 word) div ucast (b :: 16 word)) = unat x div unat b"
  by (simp add: unat_div unat_ucast_16_64)

lemma unat_of_nat_64: "n < 2 ^ 64 \<Longrightarrow> unat (of_nat n :: 64 word) = n"
  by (simp add: unat_of_nat take_bit_nat_eq_self)

lemma unat_lt_2p64: "unat (x :: 64 word) < 2 ^ 64"
  using unsigned_less [of x, where ?'a = nat] by simp

lemma bit_ucast_byte: "bit (ucast (a :: byte) :: 32 word) n \<Longrightarrow> n < 8"
  by (auto simp: bit_simps dest: bit_imp_le_length)

lemma bit_push_ucast_byte:
  "bit (push_bit k (ucast (a :: byte)) :: 32 word) n \<Longrightarrow> k \<le> n \<and> n < k + 8"
  by (auto simp: bit_simps dest: bit_imp_le_length)

lemma or_bytes_eq_add:
  fixes a b c d :: byte
  shows "(ucast a :: 32 word) OR push_bit 8 (ucast b) OR push_bit 16 (ucast c) OR push_bit 24 (ucast d)
     = ucast a + (push_bit 8 (ucast b) + (push_bit 16 (ucast c) + push_bit 24 (ucast d)))"
proof -
  have 3: "(push_bit 16 (ucast c) :: 32 word) + push_bit 24 (ucast d)
      = push_bit 16 (ucast c) OR push_bit 24 (ucast d)"
    by (rule disjunctive_add)
      (use bit_push_ucast_byte [of 16 c] bit_push_ucast_byte [of 24 d] in fastforce)
  have 2: "(push_bit 8 (ucast b) :: 32 word) + (push_bit 16 (ucast c) OR push_bit 24 (ucast d))
      = push_bit 8 (ucast b) OR (push_bit 16 (ucast c) OR push_bit 24 (ucast d))"
    by (rule disjunctive_add)
      (use bit_push_ucast_byte [of 8 b] bit_push_ucast_byte [of 16 c]
         bit_push_ucast_byte [of 24 d] in \<open>fastforce simp: bit_or_iff\<close>)
  have 1: "(ucast a :: 32 word) + (push_bit 8 (ucast b) OR (push_bit 16 (ucast c) OR push_bit 24 (ucast d)))
      = ucast a OR (push_bit 8 (ucast b) OR (push_bit 16 (ucast c) OR push_bit 24 (ucast d)))"
    by (rule disjunctive_add)
      (use bit_ucast_byte [of a] bit_push_ucast_byte [of 8 b] bit_push_ucast_byte [of 16 c]
         bit_push_ucast_byte [of 24 d] in \<open>fastforce simp: bit_or_iff\<close>)
  show ?thesis using 1 2 3 by simp
qed

lemma unat_byte_lt: "unat (a :: byte) < 256"
  using unsigned_less [of a, where ?'a = nat] by simp

lemma unat_ucast_8_32: "unat (ucast (a :: byte) :: 32 word) = unat a"
  using unat_byte_lt [of a] by (simp add: unsigned_ucast_eq take_bit_nat_eq_self)

lemma unat_push_byte:
  fixes a :: byte
  shows "unat (push_bit 8 (ucast a) :: 32 word) = 256 * unat a"
    and "unat (push_bit 16 (ucast a) :: 32 word) = 65536 * unat a"
    and "unat (push_bit 24 (ucast a) :: 32 word) = 16777216 * unat a"
  using unat_byte_lt [of a]
  by (simp_all add: push_bit_eq_mult unat_word_ariths unat_ucast_8_32)

lemma unat_bytes_sum:
  fixes a b c d :: byte
  shows "unat ((ucast a :: 32 word) + (push_bit 8 (ucast b) + (push_bit 16 (ucast c) + push_bit 24 (ucast d))))
    = unat a + 256 * unat b + 65536 * unat c + 16777216 * unat d"
proof -
  have "unat a + 256 * unat b + 65536 * unat c + 16777216 * unat d < 2 ^ 32"
    using unat_byte_lt [of a] unat_byte_lt [of b] unat_byte_lt [of c] unat_byte_lt [of d]
    by simp
  then show ?thesis
    by (simp add: unat_word_ariths unat_ucast_8_32 unat_push_byte mod_add_right_eq)
qed

lemma unat_read_u32: "unat (drwav__read_u32 bs) = le_u32 bs"
  by (simp add: drwav__read_u32_def drwav__is_little_endian_def or_bytes_eq_add
      unat_bytes_sum le_u32_def)

lemma unat_ucast_32_16:
  fixes x :: "32 word" shows "unat x < 65536 \<Longrightarrow> unat (ucast x :: 16 word) = unat x"
  by (simp add: unsigned_ucast_eq take_bit_nat_eq_self)

lemma unat_read_u16: "unat (drwav__read_u16 bs) = le_u16 bs"
proof -
  have d: "(ucast (bs ! 0) :: 32 word) OR push_bit 8 (ucast (bs ! 1))
      = ucast (bs ! 0) + push_bit 8 (ucast (bs ! 1))"
    by (rule disjunctive_add [symmetric])
      (use bit_ucast_byte [of "bs ! 0"] bit_push_ucast_byte [of 8 "bs ! 1"] in fastforce)
  have lt: "unat (bs ! 0) + 256 * unat (bs ! 1) < 65536"
    using unat_byte_lt [of "bs ! 0"] unat_byte_lt [of "bs ! 1"] by simp
  then have "unat ((ucast (bs ! 0) :: 32 word) + push_bit 8 (ucast (bs ! 1)))
      = unat (bs ! 0) + 256 * unat (bs ! 1)"
    by (simp add: unat_word_ariths unat_ucast_8_32 unat_push_byte)
  with lt d show ?thesis
    by (simp add: drwav__read_u16_def drwav__is_little_endian_def le_u16_def unat_ucast_32_16)
qed

lemma read_u32_eq_iff:
  "drwav__read_u32 bs = 16 \<longleftrightarrow> le_u32 bs = 16"
  "drwav__read_u32 bs = 18 \<longleftrightarrow> le_u32 bs = 18"
  "drwav__read_u32 bs = 40 \<longleftrightarrow> le_u32 bs = 40"
  by (simp_all add: word_unat_eq_iff unat_read_u32)

lemma read_u16_eq_iff: "drwav__read_u16 bs = 22 \<longleftrightarrow> le_u16 bs = 22"
  by (simp add: word_unat_eq_iff unat_read_u16)


section \<open>Facts about rounding\<close>

lemma ilog2_lower:
  assumes "0 < a"
  shows "2 powi (ilog2 a) \<le> a"
proof (cases "1 \<le> a")
  case True
  then have fl: "0 < \<lfloor>a\<rfloor>" by linarith
  from bitlen_bounds [OF fl] have b: "2 ^ nat (bitlen \<lfloor>a\<rfloor> - 1) \<le> \<lfloor>a\<rfloor>" by blast
  have ge1: "1 \<le> bitlen \<lfloor>a\<rfloor>" using fl by (simp add: bitlen_alt_def)
  have "(2 :: rat) powi (bitlen \<lfloor>a\<rfloor> - 1) = 2 ^ nat (bitlen \<lfloor>a\<rfloor> - 1)"
    using ge1 by (simp add: power_int_nonneg_exp)
  also have "\<dots> = of_int (2 ^ nat (bitlen \<lfloor>a\<rfloor> - 1))" by simp
  also have "\<dots> \<le> of_int \<lfloor>a\<rfloor>" using b by (simp only: of_int_le_iff)
  also have "\<dots> \<le> a" by simp
  finally show ?thesis using True by (simp add: ilog2_def)
next
  case False
  with assms have inv: "1 < 1 / a" by (simp add: field_simps)
  define c where "c = \<lceil>1 / a\<rceil>"
  have c2: "2 \<le> c" using inv unfolding c_def by linarith
  then have pos: "0 < c - 1" by simp
  from bitlen_bounds [OF pos] have "c - 1 < 2 ^ nat (bitlen (c - 1))" by blast
  then have "c \<le> 2 ^ nat (bitlen (c - 1))" by simp
  then have "(of_int c :: rat) \<le> of_int (2 ^ nat (bitlen (c - 1)))" by (simp only: of_int_le_iff)
  then have cb: "(of_int c :: rat) \<le> 2 ^ nat (bitlen (c - 1))" by simp
  have "1 / a \<le> of_int c" unfolding c_def by simp
  with cb have "1 / a \<le> 2 ^ nat (bitlen (c - 1))" by linarith
  then have "1 / 2 ^ nat (bitlen (c - 1)) \<le> a"
    using assms by (simp add: field_simps)
  moreover have "(2 :: rat) powi (- bitlen (c - 1)) = 1 / 2 ^ nat (bitlen (c - 1))"
    using bitlen_nonneg [of "c - 1"] by (simp add: power_int_minus_divide power_int_nonneg_exp)
  ultimately show ?thesis using False by (simp add: ilog2_def c_def)
qed

lemma ilog2_upper:
  assumes "0 < a"
  shows "a < 2 powi (ilog2 a + 1)"
proof (cases "1 \<le> a")
  case True
  then have fl: "0 < \<lfloor>a\<rfloor>" by linarith
  from bitlen_bounds [OF fl] have b: "\<lfloor>a\<rfloor> < 2 ^ nat (bitlen \<lfloor>a\<rfloor>)" by blast
  then have "\<lfloor>a\<rfloor> + 1 \<le> 2 ^ nat (bitlen \<lfloor>a\<rfloor>)" by simp
  then have "(of_int (\<lfloor>a\<rfloor> + 1) :: rat) \<le> of_int (2 ^ nat (bitlen \<lfloor>a\<rfloor>))"
    by (simp only: of_int_le_iff)
  moreover have "a < of_int (\<lfloor>a\<rfloor> + 1)" by linarith
  ultimately have "a < 2 ^ nat (bitlen \<lfloor>a\<rfloor>)" by simp
  moreover have "(2 :: rat) powi (bitlen \<lfloor>a\<rfloor> - 1 + 1) = 2 ^ nat (bitlen \<lfloor>a\<rfloor>)"
    using bitlen_nonneg [of "\<lfloor>a\<rfloor>"] by (simp add: power_int_nonneg_exp)
  ultimately show ?thesis using True by (simp add: ilog2_def)
next
  case False
  with assms have inv: "1 < 1 / a" by (simp add: field_simps)
  define c where "c = \<lceil>1 / a\<rceil>"
  have c2: "2 \<le> c" using inv unfolding c_def by linarith
  then have pos: "0 < c - 1" by simp
  define b where "b = bitlen (c - 1)"
  have b1: "1 \<le> b" using pos by (simp add: b_def bitlen_alt_def)
  from bitlen_bounds [OF pos] have "2 ^ nat (b - 1) \<le> c - 1" unfolding b_def by blast
  then have "(of_int (2 ^ nat (b - 1)) :: rat) \<le> of_int (c - 1)" by (simp only: of_int_le_iff)
  moreover have "of_int (c - 1) < 1 / a" unfolding c_def by linarith
  ultimately have "2 ^ nat (b - 1) < 1 / a" by simp
  then have "a < 1 / 2 ^ nat (b - 1)"
    using assms by (simp add: field_simps)
  moreover have "(2 :: rat) powi (- b + 1) = 1 / 2 ^ nat (b - 1)"
  proof -
    have "(2 :: rat) powi (- b + 1) = 2 powi (- (b - 1))" by simp
    also have "\<dots> = 1 / 2 powi (b - 1)" by (rule power_int_minus_divide)
    also have "\<dots> = 1 / 2 ^ nat (b - 1)" using b1 by (simp add: power_int_nonneg_exp)
    finally show ?thesis .
  qed
  ultimately show ?thesis using False by (simp add: ilog2_def c_def b_def)
qed

lemma fp_round_exact:
  assumes k: "\<bar>k\<bar> < 2 ^ p" and emin: "emin \<le> - int n"
  shows "fp_round p emin (of_int k / 2 ^ n) = of_int k / 2 ^ n"
proof (cases "k = 0")
  case True
  then show ?thesis by (simp add: fp_round_def)
next
  case False
  define r :: rat where "r = of_int k / 2 ^ n"
  define a where "a = \<bar>r\<bar>"
  have a_eq: "a = of_int \<bar>k\<bar> / 2 ^ n" by (simp add: a_def r_def)
  have a_pos: "0 < a" using False by (simp add: a_eq)
  have r0: "r \<noteq> 0" using False by (simp add: r_def)
  define L where "L = ilog2 a"
  have L_le: "L \<le> int p - 1 - int n"
  proof (rule ccontr)
    assume "\<not> L \<le> int p - 1 - int n"
    then have "int p - int n \<le> L" by simp
    then have "(2 :: rat) powi (int p - int n) \<le> 2 powi L"
      by (intro power_int_increasing) simp_all
    also have "\<dots> \<le> a" unfolding L_def by (rule ilog2_lower [OF a_pos])
    finally have "(2 :: rat) powi (int p - int n) \<le> a" .
    moreover have "(2 :: rat) powi (int p - int n) = 2 ^ p / 2 ^ n"
      by (simp add: power_int_diff)
    moreover have "a < 2 ^ p / 2 ^ n"
    proof -
      have "(of_int \<bar>k\<bar> :: rat) < of_int (2 ^ p)" using k by (simp only: of_int_less_iff)
      then show ?thesis by (simp add: a_eq divide_strict_right_mono)
    qed
    ultimately show False by simp
  qed
  define e where "e = max (L - (int p - 1)) emin"
  have e_le: "e \<le> - int n" using L_le emin by (simp add: e_def)
  define d where "d = nat (- int n - e)"
  have d_eq: "int d = - int n - e" using e_le by (simp add: d_def)
  have pe: "(2 :: rat) powi e = 1 / (2 ^ n * 2 ^ d)"
  proof -
    have "e = - (int n + int d)" using d_eq by simp
    then have "(2 :: rat) powi e = 2 powi (- (int n + int d))" by simp
    also have "\<dots> = 1 / 2 powi (int n + int d)" by (rule power_int_minus_divide)
    also have "\<dots> = 1 / (2 ^ n * 2 ^ d)" by (simp add: power_int_add)
    finally show ?thesis .
  qed
  define M where "M = \<bar>k\<bar> * 2 ^ d"
  have q_eq: "a / 2 powi e = of_int M"
    by (simp add: pe a_eq M_def)
  have res: "of_int M * (2 :: rat) powi e = a"
    by (simp add: pe a_eq M_def)
  have q': "\<bar>r\<bar> / 2 powi max (ilog2 \<bar>r\<bar> - (int p - 1)) emin = of_int M"
    using q_eq by (simp only: a_def L_def e_def)
  have "fp_round p emin r = sgn r * of_int M * 2 powi max (ilog2 \<bar>r\<bar> - (int p - 1)) emin"
    using r0 by (simp only: fp_round_def Let_def q' floor_of_int) simp
  also have "\<dots> = sgn r * of_int M * 2 powi e"
    by (simp only: a_def L_def e_def)
  also have "\<dots> = sgn r * a" using res by (simp add: mult.assoc)
  also have "\<dots> = r" by (simp add: a_def sgn_mult_abs)
  finally show ?thesis by (simp add: r_def)
qed


text \<open>
  \<open>fp_round\<close> yields a multiple of the unit in the last place that is at most half a unit
  away from its argument.
\<close>

lemma fp_round_nearest:
  assumes "r \<noteq> 0"
  shows "\<exists>m. fp_round p emin r = of_int m * 2 powi (max (ilog2 \<bar>r\<bar> - (int p - 1)) emin) \<and>
     \<bar>fp_round p emin r - r\<bar> \<le> 2 powi (max (ilog2 \<bar>r\<bar> - (int p - 1)) emin) / 2"
proof -
  define e where "e = max (ilog2 \<bar>r\<bar> - (int p - 1)) emin"
  define u :: rat where "u = 2 powi e"
  have u_pos: "0 < u" by (simp add: u_def)
  define q where "q = \<bar>r\<bar> / u"
  define m where "m = \<lfloor>q\<rfloor>"
  define m' where "m' = (if q - of_int m < 1 / 2 then m
                  else if 1 / 2 < q - of_int m then m + 1
                  else if even m then m else m + 1)"
  have fr: "fp_round p emin r = sgn r * of_int m' * u"
    using assms(1) unfolding fp_round_def Let_def m'_def m_def q_def u_def e_def
    by (simp only: if_False)
  have fl: "of_int m \<le> q" "q < of_int m + 1" unfolding m_def by linarith+
  have near: "\<bar>of_int m' - q\<bar> \<le> 1 / 2"
    using fl by (auto simp: m'_def abs_if)
  have r_eq: "r = sgn r * q * u"
    using u_pos by (simp add: q_def sgn_mult_abs)
  have "fp_round p emin r - r = sgn r * (of_int m' - q) * u"
    by (subst (2) r_eq) (simp add: fr algebra_simps)
  then have "\<bar>fp_round p emin r - r\<bar> = \<bar>of_int m' - q\<bar> * u"
    using assms(1) u_pos by (simp add: abs_mult abs_sgn_eq)
  also have "\<dots> \<le> 1 / 2 * u"
    using near u_pos by (intro mult_right_mono) simp_all
  finally have d: "\<bar>fp_round p emin r - r\<bar> \<le> u / 2" by simp
  have "sgn r * of_int m' = (of_int (sgn (if r < 0 then - 1 else 1) * m') :: rat)"
    using assms(1) by (auto simp: sgn_if)
  then have "fp_round p emin r = of_int (sgn (if r < 0 then - 1 else 1) * m') * u"
    by (simp only: fr)
  with d show ?thesis unfolding u_def e_def by blast
qed

section \<open>Evaluating the examples\<close>

lemmas example_defs =
  wav_example_def wav_odd_def wav_zero_channels_def wav_bad_extension_def wav_no_data_def
  wav_list_data_def
  riff_header_def fmt_chunk_pcm16_def fmt_zero_def fmt_example_def
  memory_decoder_def

lemmas memory_defs =
  drwav__on_read_memory_def drwav__on_seek_memory_def dataSize_def bytes_returned_def

lemmas read_field_defs =
  drwav__read_u32_def drwav__read_u16_def drwav__is_little_endian_def

lemma memory_read_within_request: "read_within_request drwav__on_read_memory"
proof -
  have "length (fst (drwav__on_read_memory u n)) \<le> unat n" for u n
  proof -
    define m where "m = (if n > dataSize u - currentReadPos u then dataSize u - currentReadPos u else n)"
    have "m \<le> n" by (auto simp: m_def)
    then have "unat m \<le> unat n" by (simp add: word_le_nat_alt)
    then show ?thesis
      by (auto simp: drwav__on_read_memory_def Let_def m_def [symmetric])
  qed
  then show ?thesis by (simp add: read_within_request_def)
qed

section \<open>The decoders that \<^verbatim>\<open>drwav_open\<close> returns\<close>

lemma drwav_open_decoder_facts:
  assumes "drwav_open malloc_ok fmt_local onRead' onSeek' pUserData' = Some (Inr (Some w))"
  shows "bytesPerSample w \<noteq> 0"
    and "onRead w = onRead'" and "onSeek w = onSeek'" and "onRead' \<noteq> None" and "onSeek' \<noteq> None"
    and "totalSampleCount w = bytesRemaining w div ucast (bytesPerSample w)"
    and "bytesPerSample w = ucast ((ucast (blockAlign (fmt w)) :: c_int) div ucast (drwav_fmt.channels (fmt w)))"
  using assms
  by (auto simp: drwav_open_def Let_def split: option.splits prod.splits if_splits)

section \<open>The remaining byte count under reads\<close>

lemma drwav_read_raw_returns:
  assumes rd: "onRead w = Some rd" and wb: "read_within_request rd"
  shows "\<exists>k buf w'. drwav_read_raw (Some w) b n = Inr (k, buf, Some w') \<and> onRead w' = onRead w \<and>
     bytesPerSample w' = bytesPerSample w \<and> bytesRemaining w' \<le> bytesRemaining w"
proof (cases "n = 0 \<or> \<not> b")
  case True
  then show ?thesis by (auto simp: drwav_read_raw_def)
next
  case False
  define m where "m = (if n > bytesRemaining w then bytesRemaining w else n)"
  have m_le: "m \<le> bytesRemaining w" by (auto simp: m_def)
  obtain bs u' where call: "rd (pUserData w) m = (bs, u')" by (cases "rd (pUserData w) m")
  from wb have "length (fst (rd (pUserData w) m)) \<le> unat m"
    by (simp add: read_within_request_def)
  with call have len: "length bs \<le> unat m" by simp
  then have "unat (bytes_returned bs) = length bs"
    unfolding bytes_returned_def by (metis le_unat_uoi)
  with len m_le have "bytes_returned bs \<le> bytesRemaining w"
    by (simp add: word_le_nat_alt)
  then have "bytesRemaining w - bytes_returned bs \<le> bytesRemaining w"
    by (simp add: word_sub_le)
  with False rd call show ?thesis
    by (auto simp: drwav_read_raw_def m_def Let_def)
qed

lemma drwav_read_returns:
  assumes rd: "onRead w = Some rd" and wb: "read_within_request rd"
    and bps: "bytesPerSample w \<noteq> 0"
  shows "\<exists>k buf w'. drwav_read (Some w) s b c = Inr (k, buf, Some w') \<and> onRead w' = onRead w \<and>
     bytesPerSample w' = bytesPerSample w \<and> bytesRemaining w' \<le> bytesRemaining w"
proof (cases "s = 0 \<or> \<not> b")
  case True
  then show ?thesis by (auto simp: drwav_read_def)
next
  case False
  define n where "n = (if s > c div ucast (bytesPerSample w) then c div ucast (bytesPerSample w) else s)
      * ucast (bytesPerSample w)"
  from drwav_read_raw_returns [OF rd wb, of b n] obtain k buf w' where
    raw: "drwav_read_raw (Some w) b n = Inr (k, buf, Some w')" "onRead w' = onRead w"
      "bytesPerSample w' = bytesPerSample w" "bytesRemaining w' \<le> bytesRemaining w"
    by blast
  with False bps show ?thesis
    by (simp add: drwav_read_def Let_def n_def [symmetric])
qed

lemma do_read_call_returns:
  assumes rd: "onRead w = Some rd" and wb: "read_within_request rd"
    and bps: "bytesPerSample w \<noteq> 0"
  shows "\<exists>k buf w'. do_read_call (Some w) c = Inr (k, buf, Some w') \<and> onRead w' = onRead w \<and>
     bytesPerSample w' = bytesPerSample w \<and> bytesRemaining w' \<le> bytesRemaining w"
  using drwav_read_raw_returns [OF rd wb] drwav_read_returns [OF rd wb bps] by (cases c) simp_all

lemma run_calls_returns:
  assumes wb: "read_within_request rd"
  shows "onRead w = Some rd \<Longrightarrow> bytesPerSample w \<noteq> 0 \<Longrightarrow>
    \<exists>w'. run_read_calls (Some w) cs = Inr (Some w') \<and> onRead w' = onRead w \<and>
     bytesPerSample w' = bytesPerSample w \<and> bytesRemaining w' \<le> bytesRemaining w"
proof (induction cs arbitrary: w)
  case Nil
  then show ?case by simp
next
  case (Cons c cs)
  from do_read_call_returns [OF Cons.prems(1) wb Cons.prems(2), of c] obtain k buf w1 where
    step: "do_read_call (Some w) c = Inr (k, buf, Some w1)" "onRead w1 = onRead w"
      "bytesPerSample w1 = bytesPerSample w" "bytesRemaining w1 \<le> bytesRemaining w"
    by blast
  from Cons.IH [of w1] step Cons.prems obtain w' where
    "run_read_calls (Some w1) cs = Inr (Some w')" "onRead w' = onRead w1"
    "bytesPerSample w' = bytesPerSample w1" "bytesRemaining w' \<le> bytesRemaining w1"
    by auto
  with step show ?case by auto
qed

lemma run_calls_append:
  "run_read_calls p (cs @ ds) =
     (case run_read_calls p cs of Inl f \<Rightarrow> Inl f | Inr p' \<Rightarrow> run_read_calls p' ds)"
  by (induction cs arbitrary: p) (auto split: sum.splits)

text \<open>
  C7. Assume that the read callback of a decoder returns at most the byte count it is asked
  for, and that \<^verbatim>\<open>bytesPerSample\<close> is not 0 (as for every decoder that
  \<^verbatim>\<open>drwav_open\<close> returns). Then every sequence of calls of \<^verbatim>\<open>drwav_read_raw\<close> and
  \<^verbatim>\<open>drwav_read\<close> returns, and \<^verbatim>\<open>bytesRemaining\<close> never grows: its value after the
  whole sequence is at most its value after any prefix, which is at most its value before
  the first call (the size of the data chunk when the decoder comes from
  \<^verbatim>\<open>drwav_open\<close>), and as an unsigned field it is never below 0. A call of
  \<^verbatim>\<open>drwav_seek\<close> can make it grow.
\<close>

theorem bytesRemaining_nonincreasing_under_reads:
  assumes "onRead w = Some rd" and "read_within_request rd" and "bytesPerSample w \<noteq> 0"
  shows "(\<exists>w1 w2. run_read_calls (Some w) cs = Inr (Some w1) \<and>
            run_read_calls (Some w) (cs @ ds) = Inr (Some w2) \<and>
            0 \<le> unat (bytesRemaining w2) \<and>
            unat (bytesRemaining w2) \<le> unat (bytesRemaining w1) \<and>
            unat (bytesRemaining w1) \<le> unat (bytesRemaining w))
         \<and> (\<exists>v v'. drwav_seek (Some (v :: drwav_memory drwav)) 0 = Inr (True, Some v') \<and>
              unat (bytesRemaining v) < unat (bytesRemaining v'))"
proof
  from run_calls_returns [OF assms(2) assms(1) assms(3), of cs] obtain w1 where
    w1: "run_read_calls (Some w) cs = Inr (Some w1)" "onRead w1 = onRead w"
      "bytesPerSample w1 = bytesPerSample w" "bytesRemaining w1 \<le> bytesRemaining w"
    by blast
  from w1 assms have rd1: "onRead w1 = Some rd" and bps1: "bytesPerSample w1 \<noteq> 0" by simp_all
  from run_calls_returns [OF assms(2) rd1 bps1, of ds] obtain w2 where
    w2: "run_read_calls (Some w1) ds = Inr (Some w2)" "bytesRemaining w2 \<le> bytesRemaining w1"
    by blast
  have "run_read_calls (Some w) (cs @ ds) = Inr (Some w2)"
    using w1(1) w2(1) by (simp add: run_calls_append)
  with w1 w2 show "\<exists>w1 w2. run_read_calls (Some w) cs = Inr (Some w1) \<and>
            run_read_calls (Some w) (cs @ ds) = Inr (Some w2) \<and>
            0 \<le> unat (bytesRemaining w2) \<and>
            unat (bytesRemaining w2) \<le> unat (bytesRemaining w1) \<and>
            unat (bytesRemaining w1) \<le> unat (bytesRemaining w)"
    by (auto simp: word_le_nat_alt)
next
  have "drwav_seek (Some (memory_decoder wav_example 52 2 4 0)) 0
          = Inr (True, Some (memory_decoder wav_example 44 2 4 8))"
    by (simp add: drwav_seek_def drwav_seek_loop.simps seek_offset32_def example_defs memory_defs
        word_sless_alt)
  moreover have "unat (bytesRemaining (memory_decoder wav_example 52 2 4 0))
      < unat (bytesRemaining (memory_decoder wav_example 44 2 4 8))"
    by (simp add: memory_decoder_def)
  ultimately show "\<exists>v v'. drwav_seek (Some (v :: drwav_memory drwav)) 0 = Inr (True, Some v') \<and>
              unat (bytesRemaining v) < unat (bytesRemaining v')"
    by blast
qed

theorem bytesRemaining_nonincreasing_under_reads_witness:
  "run_read_calls (Some (memory_decoder wav_example 44 2 4 8))
       ([Call_read 1 True 2] @ [Call_read_raw True 3])
     = Inr (Some (memory_decoder wav_example 49 2 4 3)) \<and>
   run_read_calls (Some (memory_decoder wav_example 44 2 4 8)) [Call_read 1 True 2]
     = Inr (Some (memory_decoder wav_example 46 2 4 6)) \<and>
   unat (bytesRemaining (memory_decoder wav_example 49 2 4 3))
     \<le> unat (bytesRemaining (memory_decoder wav_example 46 2 4 6)) \<and>
   unat (bytesRemaining (memory_decoder wav_example 46 2 4 6))
     \<le> unat (bytesRemaining (memory_decoder wav_example 44 2 4 8))"
proof -
  have h1: "onRead (memory_decoder wav_example 44 2 4 8) = Some drwav__on_read_memory"
    by (simp add: memory_decoder_def)
  have h2: "bytesPerSample (memory_decoder wav_example 44 2 4 8) \<noteq> 0"
    by (simp add: memory_decoder_def)
  have h3: "run_read_calls (Some (memory_decoder wav_example 44 2 4 8))
       ([Call_read 1 True 2] @ [Call_read_raw True 3])
     = Inr (Some (memory_decoder wav_example 49 2 4 3))"
    by (simp add: drwav_read_def drwav_read_raw_def example_defs memory_defs Let_def)
  have h4: "run_read_calls (Some (memory_decoder wav_example 44 2 4 8)) [Call_read 1 True 2]
     = Inr (Some (memory_decoder wav_example 46 2 4 6))"
    by (simp add: drwav_read_def drwav_read_raw_def example_defs memory_defs Let_def)
  from bytesRemaining_nonincreasing_under_reads [OF h1 memory_read_within_request h2,
      of "[Call_read 1 True 2]" "[Call_read_raw True 3]"]
  have "unat (bytesRemaining (memory_decoder wav_example 49 2 4 3))
     \<le> unat (bytesRemaining (memory_decoder wav_example 46 2 4 6)) \<and>
   unat (bytesRemaining (memory_decoder wav_example 46 2 4 6))
     \<le> unat (bytesRemaining (memory_decoder wav_example 44 2 4 8))"
    unfolding h3 h4 by auto
  with h3 h4 show ?thesis by simp
qed

section \<open>The typed read\<close>

text \<open>
  C1 (as amended). For a decoder with a read callback and a non-zero
  \<^verbatim>\<open>bytesPerSample\<close>, a call of \<^verbatim>\<open>drwav_read\<close> for at least one sample into a
  non-null buffer clamps the samples to the whole samples the buffer holds
  (\<^verbatim>\<open>bufferOutSize / bytesPerSample\<close>). When that is 0 it returns 0 and reads nothing.
  Otherwise the byte source is asked for the clamped samples' bytes, clamped by the raw read
  to \<^verbatim>\<open>bytesRemaining\<close>, a count of bytes that need not be a whole number of samples.
  When the source returns at most what it was asked for, the call returns the bytes obtained
  divided by \<^verbatim>\<open>bytesPerSample\<close>, rounded down, and \<^verbatim>\<open>bytesRemaining\<close> drops by
  all the bytes obtained: the bytes of a partial sample are consumed and not counted. No
  product or difference wraps around.
\<close>

theorem drwav_read_counts:
  fixes w :: "'u drwav"
  assumes rd: "onRead w = Some rd"
    and bps: "bytesPerSample w \<noteq> 0"
    and s0: "samplesToRead \<noteq> 0"
    and clamped: "clamped = min (unat samplesToRead) (unat bufferOutSize div unat (bytesPerSample w))"
    and request: "request = min (clamped * unat (bytesPerSample w)) (unat (bytesRemaining w))"
    and call: "rd (pUserData w) (of_nat request) = (buf, u')"
    and within: "length buf \<le> request"
  shows "if clamped = 0 then drwav_read (Some w) samplesToRead True bufferOutSize = Inr (0, [], Some w)
     else (\<exists>k r. drwav_read (Some w) samplesToRead True bufferOutSize
                = Inr (k, buf, Some (w\<lparr>pUserData := u', bytesRemaining := r\<rparr>)) \<and>
              unat k = length buf div unat (bytesPerSample w) \<and>
              unat r = unat (bytesRemaining w) - length buf)"
proof -
  define b where "b = unat (bytesPerSample w)"
  have b_pos: "0 < b" using bps by (simp add: b_def unat_gt_0)
  define s' where "s' = (if samplesToRead > bufferOutSize div ucast (bytesPerSample w)
     then bufferOutSize div ucast (bytesPerSample w) else samplesToRead)"
  have s'_unat: "unat s' = clamped"
    by (auto simp: s'_def clamped word_less_nat_alt unat_div_ucast_16_64 min_def)
  have "clamped * b \<le> (unat bufferOutSize div b) * b"
    by (simp add: clamped b_def)
  also have "\<dots> \<le> unat bufferOutSize" by simp
  also have "\<dots> < 2 ^ 64" by (rule unat_lt_2p64)
  finally have prod_lt: "clamped * b < 2 ^ 64" .
  define n where "n = s' * ucast (bytesPerSample w)"
  have n_unat: "unat n = clamped * b"
    using prod_lt by (simp add: n_def unat_word_ariths unat_ucast_16_64 s'_unat b_def)
  have rd_eq: "drwav_read (Some w) samplesToRead True bufferOutSize =
      (case drwav_read_raw (Some w) True n of Inl f \<Rightarrow> Inl f
       | Inr (bytesRead, buf, pWav') \<Rightarrow> Inr (bytesRead div ucast (bytesPerSample w), buf, pWav'))"
    using bps s0 by (simp add: drwav_read_def Let_def s'_def n_def)
  show ?thesis
  proof (cases "clamped = 0")
    case True
    then have "n = 0" using n_unat by (simp add: unat_eq_zero)
    then have "drwav_read_raw (Some w) True n = Inr (0, [], Some w)"
      by (simp add: drwav_read_raw_def)
    with True rd_eq show ?thesis by simp
  next
    case False
    then have n0: "n \<noteq> 0" using n_unat b_pos by (auto simp: unat_eq_zero [symmetric])
    define m where "m = (if n > bytesRemaining w then bytesRemaining w else n)"
    have m_unat: "unat m = request"
      by (auto simp: m_def request word_less_nat_alt n_unat b_def min_def)
    then have m_eq: "of_nat request = m" by (metis of_nat_unat ucast_id)
    have len_lt: "length buf < 2 ^ 64"
      using within m_unat unat_lt_2p64 [of m] by simp
    then have br: "unat (bytes_returned buf) = length buf"
      by (simp add: bytes_returned_def unat_of_nat_64)
    have le_rem: "length buf \<le> unat (bytesRemaining w)"
      using within request by simp
    have raw: "drwav_read_raw (Some w) True n =
        Inr (bytes_returned buf, buf,
             Some (w\<lparr>pUserData := u', bytesRemaining := bytesRemaining w - bytes_returned buf\<rparr>))"
      using n0 rd call by (simp add: drwav_read_raw_def Let_def m_def [symmetric] m_eq)
    have k: "unat (bytes_returned buf div ucast (bytesPerSample w)) = length buf div unat (bytesPerSample w)"
      by (simp add: unat_div_ucast_16_64 br)
    have r: "unat (bytesRemaining w - bytes_returned buf) = unat (bytesRemaining w) - length buf"
      using le_rem br by (simp add: unat_sub word_le_nat_alt)
    from False rd_eq raw k r show ?thesis by auto
  qed
qed

theorem drwav_read_counts_witness:
  "\<exists>k r. drwav_read (Some (memory_decoder wav_odd 44 2 2 5)) 10 True 100
            = Inr (k, [1, 2, 3, 4, 5],
                   Some ((memory_decoder wav_odd 44 2 2 5)
                           \<lparr>pUserData := \<lparr>data = wav_odd, currentReadPos = 49\<rparr>,
                            bytesRemaining := r\<rparr>)) \<and>
          unat k = 2 \<and> unat r = 0"
proof -
  have h1: "onRead (memory_decoder wav_odd 44 2 2 5) = Some drwav__on_read_memory"
    by (simp add: memory_decoder_def)
  have h2: "bytesPerSample (memory_decoder wav_odd 44 2 2 5) \<noteq> 0"
    by (simp add: memory_decoder_def)
  have h3: "(10 :: size_t) \<noteq> 0" by simp
  have h4: "(10 :: nat) = min (unat (10 :: size_t))
      (unat (100 :: size_t) div unat (bytesPerSample (memory_decoder wav_odd 44 2 2 5)))"
    by (simp add: memory_decoder_def)
  have h5: "(5 :: nat) = min (10 * unat (bytesPerSample (memory_decoder wav_odd 44 2 2 5)))
      (unat (bytesRemaining (memory_decoder wav_odd 44 2 2 5)))"
    by (simp add: memory_decoder_def)
  have h6: "drwav__on_read_memory (pUserData (memory_decoder wav_odd 44 2 2 5)) (of_nat 5)
      = ([1, 2, 3, 4, 5], \<lparr>data = wav_odd, currentReadPos = 49\<rparr>)"
    by (simp add: example_defs memory_defs Let_def)
  have h7: "length [1, 2, 3, 4, 5 :: byte] \<le> 5" by simp
  have h8: "length [1, 2, 3, 4, 5 :: byte]
      div unat (bytesPerSample (memory_decoder wav_odd 44 2 2 5)) = 2"
    by (simp add: memory_decoder_def)
  have h9: "unat (bytesRemaining (memory_decoder wav_odd 44 2 2 5))
      - length [1, 2, 3, 4, 5 :: byte] = 0"
    by (simp add: memory_decoder_def)
  from drwav_read_counts [OF h1 h2 h3 h4 h5 h6 h7] show ?thesis
    unfolding h8 h9 by simp
qed

text \<open>
  The claim as worded fails where \<^verbatim>\<open>bytesRemaining\<close> is not a whole number of
  samples. With 5 bytes remaining and 2 bytes per sample the specification's read is of 2
  samples, 4 bytes; the code obtains 5 bytes from the source and leaves 0 remaining.
\<close>

theorem drwav_read_whole_samples_counterexample:
  "drwav_read (Some (memory_decoder wav_odd 44 2 2 5)) 10 True 100
     = Inr (2, [1, 2, 3, 4, 5], Some (memory_decoder wav_odd 49 2 2 0)) \<and>
   spec_read_request (memory_decoder wav_odd 44 2 2 5) 10 100 = 4 \<and>
   length [1, 2, 3, 4, 5 :: byte] \<noteq> spec_read_request (memory_decoder wav_odd 44 2 2 5) 10 100"
  by (simp add: drwav_read_def drwav_read_raw_def example_defs memory_defs Let_def
      spec_read_request_def spec_clamped_samples_def)



section \<open>The format chunk is checked\<close>

lemma drwav__read_fmt_fails:
  assumes "rd u1 24 = (fmt_bytes, u2)"
    and "rd u2 2 = (fmt_cbSize, u3)"
    and "\<not> (fmt_bytes ! 0 = 0x66 \<and> fmt_bytes ! 1 = 0x6D \<and> fmt_bytes ! 2 = 0x74 \<and> fmt_bytes ! 3 = 0x20
            \<and> le_u32 (drop 4 fmt_bytes) \<in> {16, 18, 40}
            \<and> (le_u32 (drop 4 fmt_bytes) = 40 \<longrightarrow> le_u16 fmt_cbSize = 22))"
  shows "fst (drwav__read_fmt rd sk u1 fmt_local) = False"
  using assms
  by (auto simp: drwav__read_fmt_def Let_def read_u32_eq_iff read_u16_eq_iff
      split: prod.splits)


text \<open>
  C4. Whatever the byte source, when the 24 bytes read after the 12 bytes of the RIFF header
  do not start with \<^verbatim>\<open>"fmt "\<close>, or the little-endian 32-bit size that follows is
  not 16, 18 or 40, or that size is 40 and the little-endian value of the 2 bytes read next
  is not 22, then \<^verbatim>\<open>drwav_open\<close> returns \<^verbatim>\<open>NULL\<close>.
\<close>

theorem drwav_open_rejects_bad_fmt:
  assumes "rd pUserData' 12 = (riff, u1)"
    and "rd u1 24 = (fmt_bytes, u2)"
    and "rd u2 2 = (fmt_cbSize, u3)"
    and "\<not> (fmt_bytes ! 0 = 0x66 \<and> fmt_bytes ! 1 = 0x6D \<and> fmt_bytes ! 2 = 0x74 \<and> fmt_bytes ! 3 = 0x20
            \<and> le_u32 (drop 4 fmt_bytes) \<in> {16, 18, 40}
            \<and> (le_u32 (drop 4 fmt_bytes) = 40 \<longrightarrow> le_u16 fmt_cbSize = 22))"
  shows "drwav_open malloc_ok fmt_local (Some rd) (Some sk) pUserData' = Some (Inr None)"
proof -
  from drwav__read_fmt_fails [OF assms(2,3,4)]
  have "fst (drwav__read_fmt rd sk u1 fmt_local) = False" .
  then show ?thesis
    using assms(1) by (auto simp: drwav_open_def split: prod.splits)
qed



theorem drwav_open_rejects_bad_fmt_witness:
  "drwav_open True fmt_zero (Some drwav__on_read_memory) (Some drwav__on_seek_memory)
     \<lparr>data = wav_bad_extension, currentReadPos = 0\<rparr> = Some (Inr None)"
proof -
  have h1: "drwav__on_read_memory \<lparr>data = wav_bad_extension, currentReadPos = 0\<rparr> 12
      = (riff_header 68, \<lparr>data = wav_bad_extension, currentReadPos = 12\<rparr>)"
    by (simp add: example_defs memory_defs Let_def)
  have h2: "drwav__on_read_memory \<lparr>data = wav_bad_extension, currentReadPos = 12\<rparr> 24
      = ([0x66, 0x6D, 0x74, 0x20, 40, 0, 0, 0, 0xFE, 0xFF, 1, 0,
          0x44, 0xAC, 0, 0, 0x88, 0x58, 1, 0, 2, 0, 16, 0],
         \<lparr>data = wav_bad_extension, currentReadPos = 36\<rparr>)"
    by (simp add: example_defs memory_defs Let_def)
  have h3: "drwav__on_read_memory \<lparr>data = wav_bad_extension, currentReadPos = 36\<rparr> 2
      = ([0, 0], \<lparr>data = wav_bad_extension, currentReadPos = 38\<rparr>)"
    by (simp add: example_defs memory_defs Let_def)
  have h4: "\<not> ([0x66, 0x6D, 0x74, 0x20, 40, 0, 0, 0, 0xFE, 0xFF, 1, 0,
          0x44, 0xAC, 0, 0, 0x88, 0x58, 1, 0, 2, 0, 16, 0 :: byte] ! 0 = 0x66 \<and>
       [0x66, 0x6D, 0x74, 0x20, 40, 0, 0, 0, 0xFE, 0xFF, 1, 0,
          0x44, 0xAC, 0, 0, 0x88, 0x58, 1, 0, 2, 0, 16, 0 :: byte] ! 1 = 0x6D \<and>
       [0x66, 0x6D, 0x74, 0x20, 40, 0, 0, 0, 0xFE, 0xFF, 1, 0,
          0x44, 0xAC, 0, 0, 0x88, 0x58, 1, 0, 2, 0, 16, 0 :: byte] ! 2 = 0x74 \<and>
       [0x66, 0x6D, 0x74, 0x20, 40, 0, 0, 0, 0xFE, 0xFF, 1, 0,
          0x44, 0xAC, 0, 0, 0x88, 0x58, 1, 0, 2, 0, 16, 0 :: byte] ! 3 = 0x20 \<and>
       le_u32 (drop 4 [0x66, 0x6D, 0x74, 0x20, 40, 0, 0, 0, 0xFE, 0xFF, 1, 0,
          0x44, 0xAC, 0, 0, 0x88, 0x58, 1, 0, 2, 0, 16, 0]) \<in> {16, 18, 40} \<and>
       (le_u32 (drop 4 [0x66, 0x6D, 0x74, 0x20, 40, 0, 0, 0, 0xFE, 0xFF, 1, 0,
          0x44, 0xAC, 0, 0, 0x88, 0x58, 1, 0, 2, 0, 16, 0]) = 40 \<longrightarrow> le_u16 [0, 0] = 22))"
    by (simp add: le_u32_def le_u16_def)
  from drwav_open_rejects_bad_fmt [OF h1 h2 h3 h4] show ?thesis .
qed

section \<open>A channel count of zero\<close>

text \<open>
  C5. The format chunk of this container declares 0 channels; the container is otherwise the
  example. \<^verbatim>\<open>drwav_open\<close> reaches the division \<^verbatim>\<open>fmt.blockAlign / fmt.channels\<close> of
  line 551 with a divisor of 0: it does not return \<^verbatim>\<open>NULL\<close>.
\<close>

theorem drwav_open_zero_channels_divides:
  "drwav_open True fmt_zero (Some drwav__on_read_memory) (Some drwav__on_seek_memory)
     \<lparr>data = wav_zero_channels, currentReadPos = 0\<rparr> = Some (Inl DivisionByZero)"
  by (simp add: drwav_open_def drwav__read_fmt_def drwav_open_find_data.simps
      drwav_open_skip.simps example_defs memory_defs read_field_defs Let_def)

text \<open>In particular the open does not fail with \<^verbatim>\<open>NULL\<close>.\<close>

theorem drwav_open_zero_channels_divides_witness:
  "drwav_open True fmt_zero (Some drwav__on_read_memory) (Some drwav__on_seek_memory)
     \<lparr>data = wav_zero_channels, currentReadPos = 0\<rparr> \<noteq> Some (Inr None)"
  using drwav_open_zero_channels_divides by simp

section \<open>Scanning for the data chunk\<close>

lemma sint_ucast_small:
  fixes n :: "64 word"
  assumes "n \<le> 0x7FFFFFFF"
  shows "sint (ucast n :: c_int) = uint n"
proof -
  from assms have u: "uint n < 2 ^ 31" by (simp add: word_le_def)
  have eq: "uint (ucast n :: c_int) = uint n"
    using u by (simp add: unsigned_ucast_eq take_bit_int_eq_self)
  have "0 \<le> uint n" by simp
  then have "- 2147483648 \<le> uint n" by linarith
  with u eq show ?thesis
    by (simp add: sint_uint signed_take_bit_int_eq_self_iff)
qed











subsection \<open>The scan observed through the wrapped callbacks\<close>










section \<open>Seeking\<close>

lemma seek_step_facts:
  fixes offset :: "64 word"
  assumes pos: "0 < offset"
  defines "m \<equiv> (if offset > 0x7FFFFFFF then 0x7FFFFFFF else offset)"
  shows "scast (seek_offset32 offset) = m"
    and "sint (seek_offset32 offset) = uint m"
    and "0 < uint m" and "uint m \<le> 2147483647"
    and "m \<le> offset"
    and "unat (offset - m) < unat offset"
    and "uint (offset - m) = uint offset - uint m"
proof -
  show 1: "scast (seek_offset32 offset) = m"
    by (simp add: m_def scast_seek_offset32)
  show 2: "sint (seek_offset32 offset) = uint m"
  proof (cases "offset > 0x7FFFFFFF")
    case True
    then show ?thesis by (simp add: m_def seek_offset32_def)
  next
    case False
    then have "offset \<le> 0x7FFFFFFF" by simp
    from sint_ucast_small [OF this] False show ?thesis
      by (simp add: m_def seek_offset32_def)
  qed
  show 3: "0 < uint m"
    using pos by (auto simp: m_def word_less_def)
  show 4: "uint m \<le> 2147483647"
    by (auto simp: m_def word_less_def word_le_def not_less)
  show 5: "m \<le> offset"
    by (auto simp: m_def)
  then have 6: "uint m \<le> uint offset" by (simp add: word_le_def)
  show 7: "uint (offset - m) = uint offset - uint m"
    using 6 by (simp add: uint_sub_if')
  have "uint (offset - m) < uint offset" using 3 7 by simp
  then show "unat (offset - m) < unat offset"
    by (simp add: word_less_nat_alt [symmetric] word_less_def)
qed

lemma signed_step:
  fixes o32 :: c_int and direction :: c_int
  assumes d: "direction = 1 \<or> direction = - 1"
    and lo: "0 < sint o32"
  shows "sint (o32 * direction) = sint o32 * sint direction"
    and "(scast (o32 * direction) :: 64 word) = scast o32 * scast direction"
proof -
  have neg: "sint (- o32) = - sint o32"
  proof -
    have "sint o32 < 2 ^ 31" using sint_lt [of o32] by simp
    with lo have "- (2 ^ 31) \<le> - sint o32" "- sint o32 < 2 ^ 31" by simp_all
    then have "signed_take_bit 31 (- sint o32) = - sint o32"
      by (simp add: signed_take_bit_int_eq_self_iff)
    then show ?thesis by (simp add: sint_word_ariths)
  qed
  from d show "sint (o32 * direction) = sint o32 * sint direction"
  proof
    assume "direction = 1"
    then show ?thesis by simp
  next
    assume "direction = - 1"
    then show ?thesis by (simp add: neg)
  qed
  have "(scast (- o32) :: 64 word) = word_of_int (sint (- o32))"
    by (rule scast_eq)
  also have "\<dots> = word_of_int (- sint o32)"
    by (simp only: neg)
  also have "\<dots> = - word_of_int (sint o32)"
    by (rule of_int_minus)
  also have "(word_of_int (sint o32) :: 64 word) = scast o32"
    by (rule scast_eq [symmetric])
  finally have sneg: "(scast (- o32) :: 64 word) = - scast o32" .
  from d show "(scast (o32 * direction) :: 64 word) = scast o32 * scast direction"
  proof
    assume "direction = 1"
    then show ?thesis by simp
  next
    assume "direction = - 1"
    then show ?thesis by (simp add: sneg)
  qed
qed

lemma seek_loop_fields:
  assumes d: "direction = 1 \<or> direction = - 1"
  shows "drwav_seek_loop sk w offset direction =
     w\<lparr>pUserData := pUserData (drwav_seek_loop sk w offset direction),
       bytesRemaining := bytesRemaining w - offset * scast direction\<rparr>"
proof (induction "unat offset" arbitrary: offset w rule: less_induct)
  case less
  show ?case
  proof (cases "offset = 0")
    case True
    then show ?thesis by (simp add: drwav_seek_loop.simps)
  next
    case False
    then have pos: "0 < offset" by (simp add: word_neq_0_conv)
    define m where "m = (if offset > 0x7FFFFFFF then 0x7FFFFFFF else offset)"
    note f = seek_step_facts [OF pos, folded m_def]
    have lo: "0 < sint (seek_offset32 offset)" using f(2,3) by simp
    define w1 where "w1 = w\<lparr>pUserData := snd (sk (pUserData w) (seek_offset32 offset * direction)),
        bytesRemaining := bytesRemaining w - scast (seek_offset32 offset * direction)\<rparr>"
    have unf: "drwav_seek_loop sk w offset direction = drwav_seek_loop sk w1 (offset - m) direction"
      using pos by (subst drwav_seek_loop.simps) (simp add: w1_def f(1))
    have br: "bytesRemaining w1 = bytesRemaining w - m * scast direction"
      by (simp add: w1_def signed_step(2) [OF d lo] f(1))
    have "drwav_seek_loop sk w1 (offset - m) direction =
        w1\<lparr>pUserData := pUserData (drwav_seek_loop sk w1 (offset - m) direction),
           bytesRemaining := bytesRemaining w1 - (offset - m) * scast direction\<rparr>"
      by (rule less.hyps [OF f(6)])
    also have "\<dots> = w\<lparr>pUserData := pUserData (drwav_seek_loop sk w1 (offset - m) direction),
           bytesRemaining := bytesRemaining w1 - (offset - m) * scast direction\<rparr>"
      by (simp add: w1_def)
    also have "bytesRemaining w1 - (offset - m) * scast direction
        = bytesRemaining w - offset * scast direction"
      by (simp add: br algebra_simps)
    finally show ?thesis by (simp only: unf)
  qed
qed

lemma seek_loop_results_ignored:
  assumes "\<And>u off. snd (sk u off) = snd (sk' u off)"
  shows "drwav_seek_loop sk w offset direction = drwav_seek_loop sk' w offset direction"
proof (induction "unat offset" arbitrary: offset w rule: less_induct)
  case less
  show ?case
  proof (cases "offset = 0")
    case True
    then show ?thesis by (simp add: drwav_seek_loop.simps)
  next
    case False
    then have pos: "0 < offset" by (simp add: word_neq_0_conv)
    define m where "m = (if offset > 0x7FFFFFFF then 0x7FFFFFFF else offset)"
    note f = seek_step_facts [OF pos, folded m_def]
    define w1 where "w1 = w\<lparr>pUserData := snd (sk (pUserData w) (seek_offset32 offset * direction)),
        bytesRemaining := bytesRemaining w - scast (seek_offset32 offset * direction)\<rparr>"
    have "drwav_seek_loop sk w offset direction = drwav_seek_loop sk w1 (offset - m) direction"
      using pos by (subst drwav_seek_loop.simps) (simp add: w1_def f(1))
    also have "\<dots> = drwav_seek_loop sk' w1 (offset - m) direction"
      by (rule less.hyps [OF f(6)])
    also have "\<dots> = drwav_seek_loop sk' w offset direction"
      using pos by (subst (2) drwav_seek_loop.simps) (simp add: w1_def f(1) assms)
    finally show ?thesis .
  qed
qed

lemma seek_loop_logged:
  assumes d: "direction = 1 \<or> direction = - 1"
  shows "pUserData w = (v, trace) \<Longrightarrow>
    \<exists>v' steps. pUserData (drwav_seek_loop (logged_seek sk) w offset direction) = (v', trace @ steps) \<and>
       seeks_directed direction steps \<and>
       seeks_total steps = sint direction * uint offset"
proof (induction "unat offset" arbitrary: offset w v trace rule: less_induct)
  case less
  show ?case
  proof (cases "offset = 0")
    case True
    with less.prems show ?thesis
      by (simp add: drwav_seek_loop.simps seeks_directed_def seeks_total_def)
  next
    case False
    then have pos: "0 < offset" by (simp add: word_neq_0_conv)
    define m where "m = (if offset > 0x7FFFFFFF then 0x7FFFFFFF else offset)"
    note f = seek_step_facts [OF pos, folded m_def]
    have lo: "0 < sint (seek_offset32 offset)" using f(2,3) by simp
    define off where "off = seek_offset32 offset * direction"
    have soff: "sint off = uint m * sint direction"
      by (simp add: off_def signed_step(1) [OF d lo] f(2))
    obtain r v1 where call: "sk v off = (r, v1)" by (cases "sk v off")
    define w1 where "w1 = w\<lparr>pUserData := (v1, trace @ [(off, r)]),
        bytesRemaining := bytesRemaining w - scast off\<rparr>"
    have unf: "drwav_seek_loop (logged_seek sk) w offset direction
        = drwav_seek_loop (logged_seek sk) w1 (offset - m) direction"
      using pos less.prems call
      by (subst drwav_seek_loop.simps) (simp add: w1_def f(1) off_def [symmetric] logged_seek_def)
    have p1: "pUserData w1 = (v1, trace @ [(off, r)])" by (simp add: w1_def)
    from less.hyps [OF f(6) p1] obtain v' steps where
      st: "pUserData (drwav_seek_loop (logged_seek sk) w1 (offset - m) direction)
             = (v', (trace @ [(off, r)]) @ steps)"
          "seeks_directed direction steps"
          "seeks_total steps = sint direction * uint (offset - m)"
      by blast
    have sd: "sint direction = 1 \<or> sint direction = - 1" using d by auto
    have b1: "0 < sint off * sint direction" using sd soff f(3) by auto
    have b2: "\<bar>sint off\<bar> \<le> 2147483647" using sd soff f(3,4) by auto
    have tot: "seeks_total ((off, r) # steps) = sint direction * uint offset"
      using st(3) soff f(7) by (simp add: seeks_total_def algebra_simps)
    show ?thesis
      apply (rule exI [of _ v'], rule exI [of _ "(off, r) # steps"])
      using st(1,2) b1 b2 tot by (simp add: unf seeks_directed_def)
  qed
qed


lemma seek_loop_onSeek_update:
  "drwav_seek_loop sk (w\<lparr>onSeek := x\<rparr>) offset direction
     = (drwav_seek_loop sk w offset direction)\<lparr>onSeek := x\<rparr>"
proof (induction "unat offset" arbitrary: offset w rule: less_induct)
  case less
  show ?case
  proof (cases "offset = 0")
    case True
    then show ?thesis by (simp add: drwav_seek_loop.simps)
  next
    case False
    then have pos: "0 < offset" by (simp add: word_neq_0_conv)
    define m where "m = (if offset > 0x7FFFFFFF then 0x7FFFFFFF else offset)"
    note f = seek_step_facts [OF pos, folded m_def]
    define w1 where "w1 = w\<lparr>pUserData := snd (sk (pUserData w) (seek_offset32 offset * direction)),
        bytesRemaining := bytesRemaining w - scast (seek_offset32 offset * direction)\<rparr>"
    have upd: "(w\<lparr>onSeek := x\<rparr>)
          \<lparr>pUserData := snd (sk (pUserData (w\<lparr>onSeek := x\<rparr>)) (seek_offset32 offset * direction)),
           bytesRemaining := bytesRemaining (w\<lparr>onSeek := x\<rparr>)
              - scast (seek_offset32 offset * direction)\<rparr> = w1\<lparr>onSeek := x\<rparr>"
      by (cases w) (simp add: w1_def)
    have "drwav_seek_loop sk (w\<lparr>onSeek := x\<rparr>) offset direction
        = drwav_seek_loop sk (w1\<lparr>onSeek := x\<rparr>) (offset - m) direction"
      using pos by (subst drwav_seek_loop.simps) (simp only: upd f(1) if_True)
    also have "\<dots> = (drwav_seek_loop sk w1 (offset - m) direction)\<lparr>onSeek := x\<rparr>"
      by (rule less.hyps [OF f(6)])
    also have "drwav_seek_loop sk w1 (offset - m) direction = drwav_seek_loop sk w offset direction"
      using pos by (subst (2) drwav_seek_loop.simps) (simp add: w1_def f(1))
    finally show ?thesis .
  qed
qed

lemma drwav_seek_unfold:
  assumes "onSeek w = Some sk" and "totalSampleCount w \<noteq> 0"
    and "bytesRemaining w \<le> totalSampleCount w * ucast (bytesPerSample w)"
  shows "\<exists>offset direction. (direction = 1 \<or> direction = - 1) \<and>
      drwav_seek (Some w) sample = Inr (True, Some (drwav_seek_loop sk w offset direction)) \<and>
      offset * scast direction =
        (if sample \<ge> totalSampleCount w then totalSampleCount w - 1 else sample)
            * ucast (bytesPerSample w)
          - (totalSampleCount w * ucast (bytesPerSample w) - bytesRemaining w) \<and>
      sint direction * uint offset =
        uint ((if sample \<ge> totalSampleCount w then totalSampleCount w - 1 else sample)
                 * ucast (bytesPerSample w))
          - uint (totalSampleCount w * ucast (bytesPerSample w) - bytesRemaining w)"
proof -
  define target where "target = (if sample \<ge> totalSampleCount w then totalSampleCount w - 1 else sample)
            * ucast (bytesPerSample w)"
  define cur where "cur = totalSampleCount w * ucast (bytesPerSample w) - bytesRemaining w"
  show ?thesis
  proof (cases "cur < target")
    case True
    then have "uint (target - cur) = uint target - uint cur"
      by (simp add: uint_sub_if' word_less_def)
    with True assms show ?thesis
      apply (intro exI [of _ "target - cur"] exI [of _ 1])
      by (simp add: drwav_seek_def Let_def target_def [symmetric] cur_def [symmetric])
  next
    case False
    then have "uint (cur - target) = uint cur - uint target"
      by (simp add: uint_sub_if' word_less_def not_less)
    with False assms show ?thesis
      apply (intro exI [of _ "cur - target"] exI [of _ "- 1"])
      by (simp add: drwav_seek_def Let_def target_def [symmetric] cur_def [symmetric])
  qed
qed

lemma drwav_seek_no_samples:
  "onSeek w = Some sk \<Longrightarrow> totalSampleCount w = 0 \<Longrightarrow> drwav_seek (Some w) sample = Inr (True, Some w)"
  by (simp add: drwav_seek_def)

text \<open>
  What \<^verbatim>\<open>drwav_seek\<close> does when its assertion holds, observed on a wrapped callback: it
  returns 1; the offsets of the seeks it issues have magnitudes of at most
  \<^verbatim>\<open>INT_MAX\<close> and add up to the target byte position minus the current byte position;
  and \<^verbatim>\<open>bytesRemaining\<close> becomes the total sample count minus the clamped index,
  times \<^verbatim>\<open>bytesPerSample\<close>.
\<close>

lemma drwav_seek_seeks_logged:
  fixes w :: "('v \<times> (c_int \<times> bool) list) drwav"
  assumes "onSeek w = Some (logged_seek sk)" and "pUserData w = (v, [])"
    and "totalSampleCount w \<noteq> 0"
    and "bytesRemaining w \<le> totalSampleCount w * ucast (bytesPerSample w)"
  shows "\<exists>v' steps.
     drwav_seek (Some w) sample =
       Inr (True, Some (w\<lparr>pUserData := (v', steps),
         bytesRemaining :=
           (totalSampleCount w
              - (if sample \<ge> totalSampleCount w then totalSampleCount w - 1 else sample))
             * ucast (bytesPerSample w)\<rparr>)) \<and>
     (\<forall>(off, r) \<in> set steps. \<bar>sint off\<bar> \<le> 2147483647) \<and>
     seeks_total steps =
       uint ((if sample \<ge> totalSampleCount w then totalSampleCount w - 1 else sample)
                 * ucast (bytesPerSample w))
         - uint (totalSampleCount w * ucast (bytesPerSample w) - bytesRemaining w)"
proof -
  define clamped where "clamped = (if sample \<ge> totalSampleCount w then totalSampleCount w - 1 else sample)"
  from drwav_seek_unfold [OF assms(1,3,4), of sample] obtain offset direction where
    d: "direction = 1 \<or> direction = - 1"
    and run: "drwav_seek (Some w) sample
        = Inr (True, Some (drwav_seek_loop (logged_seek sk) w offset direction))"
    and delta: "offset * scast direction =
        clamped * ucast (bytesPerSample w)
          - (totalSampleCount w * ucast (bytesPerSample w) - bytesRemaining w)"
    and total: "sint direction * uint offset =
        uint (clamped * ucast (bytesPerSample w))
          - uint (totalSampleCount w * ucast (bytesPerSample w) - bytesRemaining w)"
    unfolding clamped_def by blast
  from seek_loop_logged [OF d assms(2), of sk offset] obtain v' steps where
    st: "pUserData (drwav_seek_loop (logged_seek sk) w offset direction) = (v', steps)"
      "seeks_directed direction steps" "seeks_total steps = sint direction * uint offset"
    by auto
  have "bytesRemaining w - offset * scast direction
      = (totalSampleCount w - clamped) * ucast (bytesPerSample w)"
    by (simp add: delta algebra_simps)
  with seek_loop_fields [OF d, of "logged_seek sk" w offset] st(1)
  have res: "drwav_seek_loop (logged_seek sk) w offset direction
      = w\<lparr>pUserData := (v', steps),
          bytesRemaining := (totalSampleCount w - clamped) * ucast (bytesPerSample w)\<rparr>"
    by simp
  have bound: "\<forall>(off, r) \<in> set steps. \<bar>sint off\<bar> \<le> 2147483647"
    using st(2) by (auto simp: seeks_directed_def)
  show ?thesis
    apply (rule exI [of _ v'], rule exI [of _ steps])
    using run res bound st(3) total unfolding clamped_def by simp
qed

text \<open>
  C2. The container \<open>wav_odd\<close> has a data chunk of 5 bytes and 2 bytes per sample.
  \<^verbatim>\<open>drwav_open\<close> returns a decoder with a total of 2 samples and 5 bytes remaining; on
  that decoder \<^verbatim>\<open>drwav_seek\<close> to sample 0 fails the assertion of line 634, since
  2 * 2 < 5, and issues no seek.
\<close>

theorem drwav_seek_after_open_fails_assertion:
  "drwav_open True fmt_zero (Some drwav__on_read_memory) (Some drwav__on_seek_memory)
     \<lparr>data = wav_odd, currentReadPos = 0\<rparr>
     = Some (Inr (Some (memory_decoder wav_odd 44 2 2 5))) \<and>
   drwav_seek (Some (memory_decoder wav_odd 44 2 2 5)) 0 = Inl AssertionFailed"
  by (simp add: drwav_open_def drwav__read_fmt_def drwav_open_find_data.simps drwav_seek_def
      drwav_open_skip.simps example_defs memory_defs read_field_defs
      DR_WAVE_FORMAT_EXTENSIBLE_def Let_def)

text \<open>
  In particular the seek does not return with \<^verbatim>\<open>bytesRemaining\<close> at
  (2 - 0) * 2 = 4, which is what the claim says of a seek to sample 0.
\<close>

theorem drwav_seek_after_open_fails_assertion_witness:
  "drwav_seek (Some (memory_decoder wav_odd 44 2 2 5)) 0
     \<noteq> Inr (True, Some (memory_decoder wav_odd 44 2 2 4))"
  using drwav_seek_after_open_fails_assertion by simp

text \<open>
  C10 (as amended). For a decoder with a seek callback, a non-zero total sample count and at
  most \<^verbatim>\<open>totalSampleCount * bytesPerSample\<close> bytes remaining (the assertion of line 634),
  \<^verbatim>\<open>drwav_seek\<close> returns 1 whatever the callback returns, and leaves
  \<^verbatim>\<open>bytesRemaining\<close> at the total sample count minus the clamped index, times
  \<^verbatim>\<open>bytesPerSample\<close>. With the callback replaced by one that moves the source in the same
  way and reports failure at every call, the result is the same.
\<close>

theorem drwav_seek_ignores_callback_results:
  assumes "onSeek w = Some sk" and "totalSampleCount w \<noteq> 0"
    and "bytesRemaining w \<le> totalSampleCount w * ucast (bytesPerSample w)"
  shows "\<exists>w'. drwav_seek (Some w) sample = Inr (True, Some w') \<and>
     bytesRemaining w' =
       (totalSampleCount w - (if sample \<ge> totalSampleCount w then totalSampleCount w - 1 else sample))
         * ucast (bytesPerSample w) \<and>
     drwav_seek (Some (w\<lparr>onSeek := Some (\<lambda>u off. (False, snd (sk u off)))\<rparr>)) sample
       = Inr (True, Some (w'\<lparr>onSeek := Some (\<lambda>u off. (False, snd (sk u off)))\<rparr>))"
proof -
  define sk' where "sk' = (\<lambda>u off. (False, snd (sk u off)))"
  define v where "v = w\<lparr>onSeek := Some sk'\<rparr>"
  define clamped where "clamped = (if sample \<ge> totalSampleCount w then totalSampleCount w - 1 else sample)"
  from drwav_seek_unfold [OF assms, of sample] obtain offset direction where
    d: "direction = 1 \<or> direction = - 1"
    and run: "drwav_seek (Some w) sample = Inr (True, Some (drwav_seek_loop sk w offset direction))"
    and delta: "offset * scast direction =
        clamped * ucast (bytesPerSample w)
          - (totalSampleCount w * ucast (bytesPerSample w) - bytesRemaining w)"
    unfolding clamped_def by blast
  have v1: "onSeek v = Some sk'" "totalSampleCount v \<noteq> 0"
    "bytesRemaining v \<le> totalSampleCount v * ucast (bytesPerSample v)"
    using assms by (simp_all add: v_def)
  have "bytesRemaining (drwav_seek_loop sk w offset direction)
      = bytesRemaining w - offset * scast direction"
    by (subst seek_loop_fields [OF d]) simp
  also have "\<dots> = (totalSampleCount w - clamped) * ucast (bytesPerSample w)"
    by (simp add: delta algebra_simps)
  finally have br: "bytesRemaining (drwav_seek_loop sk w offset direction)
      = (totalSampleCount w - clamped) * ucast (bytesPerSample w)" .
  have same: "drwav_seek (Some v) sample
      = Inr (True, Some ((drwav_seek_loop sk w offset direction)\<lparr>onSeek := Some sk'\<rparr>))"
  proof -
    have eq: "drwav_seek_loop sk' (w\<lparr>onSeek := Some sk'\<rparr>) off dir
        = (drwav_seek_loop sk w off dir)\<lparr>onSeek := Some sk'\<rparr>" for off dir
    proof -
      have "drwav_seek_loop sk' (w\<lparr>onSeek := Some sk'\<rparr>) off dir
          = drwav_seek_loop sk (w\<lparr>onSeek := Some sk'\<rparr>) off dir"
        by (rule seek_loop_results_ignored) (simp add: sk'_def)
      then show ?thesis by (simp add: seek_loop_onSeek_update)
    qed
    from run show ?thesis
      using assms
      by (auto simp: drwav_seek_def Let_def v_def eq split: if_splits)
  qed
  show ?thesis
    apply (rule exI [of _ "drwav_seek_loop sk w offset direction"])
    using run br same by (simp add: clamped_def sk'_def v_def)
qed

theorem drwav_seek_ignores_callback_results_witness:
  "\<exists>w'. drwav_seek (Some ((memory_decoder wav_example 52 2 4 0)\<lparr>onSeek := Some failing_seek\<rparr>)) 2
           = Inr (True, Some w') \<and>
        bytesRemaining w' = 4"
proof -
  have h1: "onSeek ((memory_decoder wav_example 52 2 4 0)\<lparr>onSeek := Some failing_seek\<rparr>)
      = Some failing_seek"
    by simp
  have h2: "totalSampleCount ((memory_decoder wav_example 52 2 4 0)\<lparr>onSeek := Some failing_seek\<rparr>)
      \<noteq> 0"
    by (simp add: memory_decoder_def)
  have h3: "bytesRemaining ((memory_decoder wav_example 52 2 4 0)\<lparr>onSeek := Some failing_seek\<rparr>)
      \<le> totalSampleCount ((memory_decoder wav_example 52 2 4 0)\<lparr>onSeek := Some failing_seek\<rparr>)
        * ucast (bytesPerSample ((memory_decoder wav_example 52 2 4 0)\<lparr>onSeek := Some failing_seek\<rparr>))"
    by (simp add: memory_decoder_def)
  from drwav_seek_ignores_callback_results [OF h1 h2 h3, of 2] show ?thesis
    by (auto simp: memory_decoder_def)
qed

text \<open>
  The claim without the assertion fails: this decoder has a seek callback and 2 samples, and
  \<^verbatim>\<open>drwav_seek\<close> does not return.
\<close>

theorem drwav_seek_always_succeeds_counterexample:
  "onSeek (memory_decoder wav_odd 44 2 2 5) = Some drwav__on_seek_memory \<and>
   totalSampleCount (memory_decoder wav_odd 44 2 2 5) = 2 \<and>
   drwav_seek (Some (memory_decoder wav_odd 44 2 2 5)) 1 = Inl AssertionFailed"
  by (simp add: drwav_seek_def memory_decoder_def)



section \<open>Conversions to float\<close>

lemma f32_round_exact:
  assumes "\<bar>k\<bar> < 2 ^ 24" and "n \<le> 149"
  shows "f32_round (of_int k / 2 ^ n) = of_int k / 2 ^ n"
  unfolding f32_round_def using assms by (intro fp_round_exact) simp_all

lemma f32_round_int:
  assumes "\<bar>k\<bar> < 2 ^ 24"
  shows "f32_round (of_int k) = of_int k"
  using f32_round_exact [OF assms, of 0] by simp

lemma f64_round_exact:
  assumes "\<bar>k\<bar> < 2 ^ 53" and "n \<le> 1074"
  shows "f64_round (of_int k / 2 ^ n) = of_int k / 2 ^ n"
  unfolding f64_round_def using assms by (intro fp_round_exact) simp_all

lemma f64_round_int:
  assumes "\<bar>k\<bar> < 2 ^ 53"
  shows "f64_round (of_int k) = of_int k"
  using f64_round_exact [OF assms, of 0] by simp

lemma sint16_bound: "\<bar>sint (x :: 16 word)\<bar> < 2 ^ 24"
proof -
  have "- (2 ^ 15) \<le> sint x" "sint x < 2 ^ 15"
    using sint_ge [of x] sint_lt [of x] by simp_all
  then show ?thesis by simp
qed

lemma s16_sample_exact:
  "f32_round (f32_round (of_int (sint (x :: 16 word))) / 32768) = of_int (sint x) / 32768"
proof -
  have a: "f32_round (of_int (sint x)) = of_int (sint x)"
    by (rule f32_round_int [OF sint16_bound])
  have b: "f32_round (of_int (sint x) / 2 ^ 15) = of_int (sint x) / 2 ^ 15"
    by (rule f32_round_exact [OF sint16_bound]) simp
  have c: "(2 :: rat) ^ 15 = 32768" by simp
  show ?thesis by (simp only: a b [unfolded c])
qed

text \<open>
  C8. \<^verbatim>\<open>drwav_s16PCM_to_f32\<close> stores, for each sample, exactly the sample's value
  divided by 32768: both the conversion of the sample to \<^verbatim>\<open>float\<close> and the division
  are exact in binary32. For the samples -32768 and 32767 the floats are -1 and
  32767/32768.
\<close>

theorem drwav_s16PCM_to_f32_exact:
  "drwav_s16PCM_to_f32 n (Some p) True = map (\<lambda>i. of_int (sint (p i)) / 32768) [0..<unat n] \<and>
   drwav_s16PCM_to_f32 2 (Some (\<lambda>i. [- 32768, 32767] ! i)) True = [- 1, 32767 / 32768]"
proof
  show "drwav_s16PCM_to_f32 n (Some p) True = map (\<lambda>i. of_int (sint (p i)) / 32768) [0..<unat n]"
    unfolding drwav_s16PCM_to_f32_def s16_sample_exact by simp
  have "[0..<unat (2 :: size_t)] = [0, 1]" by (simp add: upt_rec)
  then show "drwav_s16PCM_to_f32 2 (Some (\<lambda>i. [- 32768, 32767] ! i)) True = [- 1, 32767 / 32768]"
    unfolding drwav_s16PCM_to_f32_def s16_sample_exact by simp
qed



lemma byte_enum:
  assumes "list_all (\<lambda>n. P (of_nat n :: byte)) [0..<256]"
  shows "P x"
proof -
  have "unat x < 256" using unsigned_less [of x, where ?'a = nat] by simp
  then have "unat x \<in> set [0..<256]" by simp
  with assms have "P (of_nat (unat x))" unfolding list_all_iff by blast
  then show ?thesis by simp
qed

lemma alaw_all:
  "list_all (\<lambda>n. sint (drwav_alaw_to_f32_t (of_nat n)) = spec_alaw_value (of_nat n)
       \<and> \<bar>spec_alaw_value (of_nat n)\<bar> < 16777216) [0..<256]"
  by code_simp

lemma ulaw_all:
  "list_all (\<lambda>n. sint (drwav_ulaw_to_f32_t (of_nat n)) = spec_ulaw_value (of_nat n)
       \<and> \<bar>spec_ulaw_value (of_nat n)\<bar> < 16777216) [0..<256]"
  by code_simp

lemma law_sample_exact:
  assumes "sint t = v" and "\<bar>v\<bar> < 16777216"
  shows "f32_round (f32_round (of_int (sint (t :: c_int))) / 32768) = f32_round (of_int v / 32768)"
proof -
  have b: "\<bar>v\<bar> < 2 ^ 24" using assms(2) by simp
  have "f32_round (of_int v) = of_int v" by (rule f32_round_int [OF b])
  then show ?thesis by (simp only: assms(1))
qed

text \<open>
  C3. For each of the 256 byte values, the float that \<^verbatim>\<open>drwav_alaw_to_f32\<close> and
  \<^verbatim>\<open>drwav_ulaw_to_f32\<close> store is the value of the formula of section 4.4 of the
  specification, and that value is exactly the formula's integer divided by 32768. The
  functions apply this to each element of their input (\<^verbatim>\<open>drwav_ulaw_to_f32\<close> for
  counts that its \<^verbatim>\<open>unsigned int\<close> index reaches).
\<close>

theorem law_tables_match_formulas:
  "drwav_alaw_to_f32 n (Some p) True = map (\<lambda>i. spec_alaw_to_f32 (p i)) [0..<unat n] \<and>
   drwav_ulaw_to_f32 n (Some p) True =
     (if n > 0xFFFFFFFF then Inl BufferOverrun
      else Inr (map (\<lambda>i. spec_ulaw_to_f32 (p i)) [0..<unat n])) \<and>
   drwav_alaw_to_f32_sample x = spec_alaw_to_f32 x \<and>
   drwav_ulaw_to_f32_sample x = spec_ulaw_to_f32 x \<and>
   spec_alaw_to_f32 x = of_int (spec_alaw_value x) / 32768 \<and>
   spec_ulaw_to_f32 x = of_int (spec_ulaw_value x) / 32768"
proof -
  have a: "drwav_alaw_to_f32_sample y = spec_alaw_to_f32 y" for y
  proof -
    from byte_enum [of "\<lambda>y. sint (drwav_alaw_to_f32_t y) = spec_alaw_value y
        \<and> \<bar>spec_alaw_value y\<bar> < 16777216", OF alaw_all]
    have "sint (drwav_alaw_to_f32_t y) = spec_alaw_value y" "\<bar>spec_alaw_value y\<bar> < 16777216"
      by simp_all
    then show ?thesis
      unfolding drwav_alaw_to_f32_sample_def spec_alaw_to_f32_def by (rule law_sample_exact)
  qed
  have u: "drwav_ulaw_to_f32_sample y = spec_ulaw_to_f32 y" for y
  proof -
    from byte_enum [of "\<lambda>y. sint (drwav_ulaw_to_f32_t y) = spec_ulaw_value y
        \<and> \<bar>spec_ulaw_value y\<bar> < 16777216", OF ulaw_all]
    have "sint (drwav_ulaw_to_f32_t y) = spec_ulaw_value y" "\<bar>spec_ulaw_value y\<bar> < 16777216"
      by simp_all
    then show ?thesis
      unfolding drwav_ulaw_to_f32_sample_def spec_ulaw_to_f32_def by (rule law_sample_exact)
  qed
  have ea: "spec_alaw_to_f32 x = of_int (spec_alaw_value x) / 32768"
  proof -
    from byte_enum [of "\<lambda>y. sint (drwav_alaw_to_f32_t y) = spec_alaw_value y
        \<and> \<bar>spec_alaw_value y\<bar> < 16777216", OF alaw_all]
    have "\<bar>spec_alaw_value x\<bar> < 2 ^ 24" by simp
    from f32_round_exact [OF this, of 15] show ?thesis by (simp add: spec_alaw_to_f32_def)
  qed
  have eu: "spec_ulaw_to_f32 x = of_int (spec_ulaw_value x) / 32768"
  proof -
    from byte_enum [of "\<lambda>y. sint (drwav_ulaw_to_f32_t y) = spec_ulaw_value y
        \<and> \<bar>spec_ulaw_value y\<bar> < 16777216", OF ulaw_all]
    have "\<bar>spec_ulaw_value x\<bar> < 2 ^ 24" by simp
    from f32_round_exact [OF this, of 15] show ?thesis by (simp add: spec_ulaw_to_f32_def)
  qed
  show ?thesis
    by (simp add: drwav_alaw_to_f32_def drwav_ulaw_to_f32_def a u ea eu)
qed


section \<open>The generic PCM path\<close>

lemma sint32_eq: "sint (w :: 32 word) = (if 2147483648 \<le> uint w then uint w - 4294967296 else uint w)"
proof -
  have lt: "uint w < 4294967296" using uint_bounded [of w] by simp
  have ge: "0 \<le> uint w" by simp
  have s: "sint w = (uint w + 2147483648) mod 4294967296 - 2147483648"
    by (simp add: sint_uint signed_take_bit_eq_take_bit_shift take_bit_eq_mod)
  show ?thesis
  proof (cases "2147483648 \<le> uint w")
    case True
    have "uint w + 2147483648 = (uint w - 2147483648) + 4294967296" by simp
    then have "(uint w + 2147483648) mod 4294967296 = (uint w - 2147483648) mod 4294967296"
      by (simp only: mod_add_self2)
    also have "\<dots> = uint w - 2147483648"
      using True lt by (simp add: mod_pos_pos_trivial)
    finally show ?thesis using True s by simp
  next
    case False
    then have "(uint w + 2147483648) mod 4294967296 = uint w + 2147483648"
      using ge by (simp add: mod_pos_pos_trivial)
    with False s show ?thesis by simp
  qed
qed

lemma accumulate8:
  "drwav__pcm_to_f32_accumulate q 8 0 0 0 =
     Inr (ucast (q 0) OR push_bit 8 (ucast (q 1)) OR push_bit 16 (ucast (q 2))
          OR push_bit 24 (ucast (q 3)))"
  by (simp add: drwav__pcm_to_f32_accumulate.simps or.assoc)

lemma accumulate0:
  "drwav__pcm_to_f32_accumulate q 0 0 sh 0 = Inr 0"
  by (simp add: drwav__pcm_to_f32_accumulate.simps)

lemma unat_ucast_16_32: "unat (ucast (b :: 16 word) :: 32 word) = unat b"
proof -
  have "unat b < 2 ^ 16" using unsigned_less [of b, where ?'a = nat] by simp
  then have "unat b < 2 ^ 32" by (rule less_trans) simp
  then show ?thesis by (simp add: unsigned_ucast_eq take_bit_nat_eq_self)
qed

lemma uint_le_bytes:
  fixes a b c d :: byte
  shows "uint ((ucast a :: 32 word) OR push_bit 8 (ucast b) OR push_bit 16 (ucast c)
            OR push_bit 24 (ucast d))
     = uint a + 256 * uint b + 65536 * uint c + 16777216 * uint d"
proof -
  have "unat ((ucast a :: 32 word) OR push_bit 8 (ucast b) OR push_bit 16 (ucast c)
            OR push_bit 24 (ucast d))
     = unat a + 256 * unat b + 65536 * unat c + 16777216 * unat d"
    by (simp only: or_bytes_eq_add unat_bytes_sum)
  then have "int (unat ((ucast a :: 32 word) OR push_bit 8 (ucast b) OR push_bit 16 (ucast c)
            OR push_bit 24 (ucast d)))
     = int (unat a + 256 * unat b + 65536 * unat c + 16777216 * unat d)"
    by (rule arg_cong)
  then show ?thesis by (simp only: uint_nat)
qed

lemma sample_width_8:
  "drwav__pcm_to_f32_sample q 8 = Inr (f32_round (of_int (le_s32_value q) / 2147483648))"
proof -
  define w where "w = (ucast (q 0) :: 32 word) OR push_bit 8 (ucast (q 1))
      OR push_bit 16 (ucast (q 2)) OR push_bit 24 (ucast (q 3))"
  have v: "sint w = le_s32_value q"
    by (simp only: sint32_eq w_def uint_le_bytes le_s32_value_def Let_def)
  have b: "\<bar>sint w\<bar> < 2 ^ 53"
  proof -
    have "- (2 ^ 31) \<le> sint w" "sint w < 2 ^ 31"
      using sint_ge [of w] sint_lt [of w] by simp_all
    then show ?thesis by simp
  qed
  have e1: "f64_round (of_int (sint w)) = of_int (sint w)"
    by (rule f64_round_int [OF b])
  have e2: "f64_round (of_int (sint w) / 2 ^ 31) = of_int (sint w) / 2 ^ 31"
    by (rule f64_round_exact [OF b]) simp
  have c: "(2 :: rat) ^ 31 = 2147483648" by simp
  have "drwav__pcm_to_f32_sample q 8
      = Inr (f32_round (f64_round (f64_round (of_int (sint w)) / 2147483648)))"
    by (simp add: drwav__pcm_to_f32_sample_def accumulate8 w_def)
  also have "\<dots> = Inr (f32_round (of_int (sint w) / 2147483648))"
    by (simp only: e1 e2 [unfolded c])
  finally show ?thesis by (simp only: v)
qed

lemma fp_round_0: "fp_round p emin 0 = 0"
  by (simp add: fp_round_def)

lemma sample_width_0: "drwav__pcm_to_f32_sample q 0 = Inr 0"
  by (simp add: drwav__pcm_to_f32_sample_def accumulate0 f32_round_def f64_round_def fp_round_0)

lemma collect_map_Inr: "collect (map (\<lambda>i. Inr (f i)) xs) = Inr (map f xs)"
  by (induction xs) simp_all

lemma shift_start_large:
  fixes bps :: "16 word"
  assumes "9 \<le> bps"
  shows "(32 :: 32 word) \<le> (8 - ucast bps) * 8"
proof -
  define y :: "32 word" where "y = 8 * ucast bps"
  have ub: "unat bps < 65536" using unsigned_less [of bps, where ?'a = nat] by simp
  have lb: "9 \<le> unat bps" using assms by (simp add: word_le_nat_alt)
  have uy: "unat y = 8 * unat bps"
    using ub by (simp add: y_def unat_word_ariths unat_ucast_16_32)
  have "(8 - ucast bps) * 8 = 64 - y" by (simp add: y_def algebra_simps)
  moreover have "unat (64 - y) = 64 + 4294967296 - 8 * unat bps"
    using lb by (simp add: unat_sub_if_size uy word_size)
  ultimately have "unat ((8 - ucast bps :: 32 word) * 8) = 64 + 4294967296 - 8 * unat bps"
    by simp
  with ub show ?thesis by (simp add: word_le_nat_alt)
qed

lemma sample_other_widths:
  assumes "bps \<notin> {0, 1, 2, 3, 4, 8}"
  shows "drwav__pcm_to_f32_sample q bps = Inl ShiftOutOfRange"
proof -
  consider "bps = 5" | "bps = 6" | "bps = 7" | "9 \<le> bps"
  proof -
    have "unat bps \<notin> {0, 1, 2, 3, 4, 8}"
      using assms by (auto simp: word_unat_eq_iff)
    then have "unat bps = 5 \<or> unat bps = 6 \<or> unat bps = 7 \<or> 9 \<le> unat bps" by auto
    then have "bps = 5 \<or> bps = 6 \<or> bps = 7 \<or> 9 \<le> bps"
      by (auto simp: word_unat_eq_iff word_le_nat_alt)
    then show ?thesis using that by blast
  qed
  then show ?thesis
  proof cases
    case 1
    then show ?thesis
      by (simp add: drwav__pcm_to_f32_sample_def drwav__pcm_to_f32_accumulate.simps)
  next
    case 2
    then show ?thesis
      by (simp add: drwav__pcm_to_f32_sample_def drwav__pcm_to_f32_accumulate.simps)
  next
    case 3
    then show ?thesis
      by (simp add: drwav__pcm_to_f32_sample_def drwav__pcm_to_f32_accumulate.simps)
  next
    case 4
    then have "0 < bps" by (simp add: word_less_nat_alt word_le_nat_alt)
    with shift_start_large [OF 4] show ?thesis
      by (simp add: drwav__pcm_to_f32_sample_def drwav__pcm_to_f32_accumulate.simps [of q bps 0])
  qed
qed

lemma collect_Inl_first:
  "xs \<noteq> [] \<Longrightarrow> collect (map (\<lambda>i. Inl f) xs) = (Inl f :: fault + rat list)"
  by (cases xs) simp_all

lemma pcm_generic_width_8:
  assumes "n \<le> 0xFFFFFFFF"
  shows "drwav__pcm_to_f32 n (Some p) 8 True =
      Inr (True, map (\<lambda>i. f32_round (of_int (le_s32_value (\<lambda>k. p (i * 8 + k))) / 2147483648))
                   [0..<unat n])"
proof -
  have n: "\<not> n > 0xFFFFFFFF" using assms by simp
  then show ?thesis
    by (simp add: drwav__pcm_to_f32_def sample_width_8 collect_map_Inr)
qed

lemma pcm_generic_width_0:
  assumes "n \<le> 0xFFFFFFFF"
  shows "drwav__pcm_to_f32 n (Some p) 0 True = Inr (True, replicate (unat n) 0)"
proof -
  have n: "\<not> n > 0xFFFFFFFF" using assms by simp
  have "collect (map (\<lambda>i. Inr 0) [0..<unat n]) = (Inr (map (\<lambda>i. 0) [0..<unat n]) :: fault + rat list)"
    by (rule collect_map_Inr)
  then show ?thesis
    using n by (simp add: drwav__pcm_to_f32_def sample_width_0 map_replicate_const)
qed

lemma drwav__pcm_to_f32_other_widths:
  assumes "bps \<notin> {0, 1, 2, 3, 4, 8}" and "n \<noteq> 0"
  shows "drwav__pcm_to_f32 n (Some p) bps True = Inl ShiftOutOfRange"
proof -
  have ne: "[0..<unat n] \<noteq> []" using assms(2) by (simp add: unat_gt_0)
  from assms(1) have b: "bps \<noteq> 1" "bps \<noteq> 2" "bps \<noteq> 3" "bps \<noteq> 4" by auto
  show ?thesis
    using b collect_Inl_first [OF ne, of ShiftOutOfRange]
    by (simp add: drwav__pcm_to_f32_def sample_other_widths [OF assms(1)])
qed

text \<open>
  C6 (as amended). For a sample count within \<^verbatim>\<open>unsigned int\<close> and non-null pointers,
  the generic path of \<^verbatim>\<open>drwav__pcm_to_f32\<close> with a width of 8 bytes takes the first
  four bytes of each sample with the first byte the least significant, ignores the other
  four, reads the result as a signed 32-bit integer and stores that integer divided by
  2147483648, rounded to \<^verbatim>\<open>float\<close>; with a width of 0 it stores 0 for every sample.
\<close>

theorem drwav__pcm_to_f32_generic:
  assumes "n \<le> 0xFFFFFFFF"
  shows "drwav__pcm_to_f32 n (Some p) 8 True =
           Inr (True, map (\<lambda>i. f32_round (of_int (le_s32_value (\<lambda>k. p (i * 8 + k))) / 2147483648))
                        [0..<unat n]) \<and>
         drwav__pcm_to_f32 n (Some p) 0 True = Inr (True, replicate (unat n) 0)"
  using pcm_generic_width_8 [OF assms] pcm_generic_width_0 [OF assms] by simp

theorem drwav__pcm_to_f32_generic_witness:
  "drwav__pcm_to_f32 1 (Some (\<lambda>k. [0, 0, 0, 0x40, 9, 9, 9, 9] ! k)) 8 True = Inr (True, [1 / 2]) \<and>
   drwav__pcm_to_f32 1 (Some (\<lambda>k. [0, 0, 0, 0x40, 9, 9, 9, 9] ! k)) 0 True = Inr (True, [0])"
proof -
  have h: "(1 :: size_t) \<le> 0xFFFFFFFF" by simp
  have "\<bar>1 :: int\<bar> < 2 ^ 24" by simp
  from f32_round_exact [OF this, of 1] have r: "f32_round (1 / 2) = 1 / 2" by simp
  have u: "[0..<unat (1 :: size_t)] = [0]" by simp
  from drwav__pcm_to_f32_generic [OF h, of "\<lambda>k. [0, 0, 0, 0x40, 9, 9, 9, 9] ! k"]
  show ?thesis unfolding u by (simp add: le_s32_value_def r)
qed


text \<open>
  The claim as worded fails. For the 8-byte sample 01 00 00 00 00 00 00 00 the code stores
  1/2147483648: the first byte is the least significant. With the most significant byte
  first the value is 16777216/2147483648 = 1/128. And for a width of 5 the second shift
  count is 32, so no value is produced.
\<close>

theorem drwav__pcm_to_f32_msb_first_counterexample:
  "drwav__pcm_to_f32 1 (Some (\<lambda>k. [1, 0, 0, 0, 0, 0, 0, 0] ! k)) 8 True
     = Inr (True, [1 / 2147483648]) \<and>
   spec_pcm_generic_to_f32 8 (\<lambda>k. [1, 0, 0, 0, 0, 0, 0, 0] ! k) = 1 / 128 \<and>
   drwav__pcm_to_f32 1 (Some (\<lambda>k. [1, 0, 0, 0, 0] ! k)) 5 True = Inl ShiftOutOfRange"
proof -
  have h: "(1 :: size_t) \<le> 0xFFFFFFFF" by simp
  have k1: "\<bar>1 :: int\<bar> < 2 ^ 24" by simp
  from f32_round_exact [OF k1, of 31] have r: "f32_round (1 / 2147483648) = 1 / 2147483648" by simp
  from f32_round_exact [OF k1, of 7] have r': "f32_round (1 / 128) = 1 / 128" by simp
  have u: "[0..<unat (1 :: size_t)] = [0]" by simp
  have a: "drwav__pcm_to_f32 1 (Some (\<lambda>k. [1, 0, 0, 0, 0, 0, 0, 0] ! k)) 8 True
     = Inr (True, [1 / 2147483648])"
    using pcm_generic_width_8 [OF h, of "\<lambda>k. [1, 0, 0, 0, 0, 0, 0, 0] ! k"]
    unfolding u by (simp add: le_s32_value_def r)
  have s: "spec_pcm_generic_value 8 (\<lambda>k. [1, 0, 0, 0, 0, 0, 0, 0 :: byte] ! k) = 16777216"
    by (simp add: spec_pcm_generic_value_def upt_rec)
  have b: "spec_pcm_generic_to_f32 8 (\<lambda>k. [1, 0, 0, 0, 0, 0, 0, 0] ! k) = 1 / 128"
    unfolding spec_pcm_generic_to_f32_def s using r' by simp
  have c: "drwav__pcm_to_f32 1 (Some (\<lambda>k. [1, 0, 0, 0, 0] ! k)) 5 True = Inl ShiftOutOfRange"
    by (rule drwav__pcm_to_f32_other_widths) simp_all
  from a b c show ?thesis by simp
qed

end
